theory Spec2Isabelle
  imports Complex_Main "HOL-Library.AList"
begin

section \<open>Data model (shared/schema.ts)\<close>

text \<open>
  The tables of the schema become records. Every numeric column is a JavaScript number;
  amounts, balances and multipliers are modelled as \<^typ>\<open>real\<close> (exact arithmetic),
  identifiers and counters as \<^typ>\<open>nat\<close>, and a \<open>Date\<close> as its millisecond value, an
  \<^typ>\<open>int\<close>. The \<open>createdAt\<close>/\<open>updatedAt\<close> stamps are left out: none of the operations
  modelled below reads them.
\<close>

record user =
  u_id :: nat
  u_username :: string
  u_password :: string
  u_email :: "string option"
  u_name :: "string option"
  u_role :: "string option"
  u_balance :: real

text \<open>\<open>InsertUser\<close>: the picked columns plus the optional \<open>role\<close> and \<open>balance\<close>.\<close>

record insert_user =
  iu_username :: string
  iu_password :: string
  iu_email :: "string option"
  iu_name :: "string option"
  iu_role :: "string option"
  iu_balance :: "real option"

record game_round =
  gr_id :: nat
  gr_roundNumber :: nat
  gr_startTime :: int
  gr_endTime :: int
  gr_result :: string
  gr_multiplier :: real

record insert_game_round =
  igr_roundNumber :: nat
  igr_startTime :: int
  igr_endTime :: int
  igr_result :: string
  igr_multiplier :: real

text \<open>The \<open>status\<close> column holds one of \<open>'pending'\<close>, \<open>'won'\<close>, \<open>'lost'\<close>.\<close>

datatype bet_status = Pending | Won | Lost

record bet =
  bet_id :: nat
  bet_userId :: nat
  bet_roundId :: nat
  bet_color :: string
  bet_amount :: real
  bet_potential :: real
  bet_status :: bet_status
  bet_profit :: "real option"

record insert_bet =
  ib_userId :: nat
  ib_roundId :: nat
  ib_color :: string
  ib_amount :: real
  ib_potential :: real
  ib_status :: bet_status

text \<open>The \<open>type\<close> column: \<open>'deposit'\<close>, \<open>'withdrawal'\<close>, \<open>'win'\<close>, \<open>'bet'\<close>.\<close>

datatype tx_type = DepositTx | WithdrawalTx | WinTx | BetTx

text \<open>
  The \<open>reference\<close> column is a template string, \<open>`Bet #${bet.id}`\<close> or
  \<open>`Round #${round.roundNumber}`\<close>; the model keeps the template and the number.
\<close>

datatype reference = BetRef nat | RoundRef nat

record transaction =
  tx_id :: nat
  tx_userId :: nat
  tx_amount :: real
  tx_type :: tx_type
  tx_reference :: reference
  tx_balanceBefore :: real
  tx_balanceAfter :: real

record insert_transaction =
  itx_userId :: nat
  itx_amount :: real
  itx_type :: tx_type
  itx_reference :: reference
  itx_balanceBefore :: real
  itx_balanceAfter :: real

section \<open>MemStorage (server/storage.ts)\<close>

text \<open>
  Each \<open>Map\<close> is an association list in insertion order: \<open>Map.get\<close> is \<^const>\<open>map_of\<close>,
  \<open>Map.set\<close> is \<^const>\<open>AList.update\<close> (an existing key keeps its position, a new key goes
  last) and \<open>Array.from(m.values())\<close> is \<open>map snd\<close>. The audit log is not modelled.
\<close>

record storage =
  users :: "(nat \<times> user) list"
  gameRounds :: "(nat \<times> game_round) list"
  bets :: "(nat \<times> bet) list"
  transactions :: "(nat \<times> transaction) list"
  userId :: nat
  roundId :: nat
  betId :: nat
  transactionId :: nat
  roundNumber :: nat

definition getUser :: "storage \<Rightarrow> nat \<Rightarrow> user option" where
  "getUser s i = map_of (users s) i"

definition getUserByUsername :: "storage \<Rightarrow> string \<Rightarrow> user option" where
  "getUserByUsername s n = find (\<lambda>u. u_username u = n) (map snd (users s))"

text \<open>
  \<open>createUser\<close>: the object literal spreads \<open>insertUser\<close> first and then sets \<open>id\<close> and
  \<open>balance\<close>, so the constant 1000 replaces a balance of the input.
\<close>

definition createUser :: "storage \<Rightarrow> insert_user \<Rightarrow> user \<times> storage" where
  "createUser s insertUser =
     (let i = userId s;
          balance = 1000;
          usr = \<lparr> u_id = i, u_username = iu_username insertUser,
                  u_password = iu_password insertUser, u_email = iu_email insertUser,
                  u_name = iu_name insertUser, u_role = iu_role insertUser,
                  u_balance = balance \<rparr>
      in (usr, s\<lparr> userId := i + 1, users := AList.update i usr (users s) \<rparr>))"

text \<open>
  \<open>updateUser(id, updates)\<close>: the game code passes \<open>{ balance }\<close> only, so the partial
  object is modelled by that one field.
\<close>

definition updateUser :: "storage \<Rightarrow> nat \<Rightarrow> real \<Rightarrow> user option \<times> storage" where
  "updateUser s i newBalance =
     (case map_of (users s) i of
        None \<Rightarrow> (None, s)
      | Some usr \<Rightarrow>
          (let updatedUser = usr\<lparr> u_balance := newBalance \<rparr>
           in (Some updatedUser, s\<lparr> users := AList.update i updatedUser (users s) \<rparr>)))"

text \<open>\<open>createGameRound\<close>: a falsy (zero) round number is replaced by the internal counter.\<close>

definition createGameRound :: "storage \<Rightarrow> insert_game_round \<Rightarrow> game_round \<times> storage" where
  "createGameRound s insertRound =
     (let i = roundId s;
          useCounter = (igr_roundNumber insertRound = 0);
          rn = (if useCounter then roundNumber s else igr_roundNumber insertRound);
          rnd = \<lparr> gr_id = i, gr_roundNumber = rn, gr_startTime = igr_startTime insertRound,
                  gr_endTime = igr_endTime insertRound, gr_result = igr_result insertRound,
                  gr_multiplier = igr_multiplier insertRound \<rparr>
      in (rnd, s\<lparr> roundId := i + 1,
                  roundNumber := (if useCounter then roundNumber s + 1 else roundNumber s),
                  gameRounds := AList.update i rnd (gameRounds s) \<rparr>))"

definition getGameRound :: "storage \<Rightarrow> nat \<Rightarrow> game_round option" where
  "getGameRound s i = map_of (gameRounds s) i"

text \<open>\<open>getActiveGameRound\<close>: the first round, in insertion order, whose window holds \<open>now\<close>.\<close>

definition getActiveGameRound :: "storage \<Rightarrow> int \<Rightarrow> game_round option" where
  "getActiveGameRound s now =
     find (\<lambda>rnd. gr_startTime rnd \<le> now \<and> gr_endTime rnd \<ge> now) (map snd (gameRounds s))"

text \<open>\<open>updateGameRound(id, { result, multiplier })\<close>.\<close>

definition updateGameRound ::
  "storage \<Rightarrow> nat \<Rightarrow> string \<Rightarrow> real \<Rightarrow> game_round option \<times> storage" where
  "updateGameRound s i res mult =
     (case map_of (gameRounds s) i of
        None \<Rightarrow> (None, s)
      | Some rnd \<Rightarrow>
          (let updatedRound = rnd\<lparr> gr_result := res, gr_multiplier := mult \<rparr>
           in (Some updatedRound,
               s\<lparr> gameRounds := AList.update i updatedRound (gameRounds s) \<rparr>)))"

definition createBet :: "storage \<Rightarrow> insert_bet \<Rightarrow> bet \<times> storage" where
  "createBet s insertBet =
     (let i = betId s;
          b = \<lparr> bet_id = i, bet_userId = ib_userId insertBet, bet_roundId = ib_roundId insertBet,
                bet_color = ib_color insertBet, bet_amount = ib_amount insertBet,
                bet_potential = ib_potential insertBet, bet_status = ib_status insertBet,
                bet_profit = None \<rparr>
      in (b, s\<lparr> betId := i + 1, bets := AList.update i b (bets s) \<rparr>))"

definition getBet :: "storage \<Rightarrow> nat \<Rightarrow> bet option" where
  "getBet s i = map_of (bets s) i"

definition getBetsByRound :: "storage \<Rightarrow> nat \<Rightarrow> bet list" where
  "getBetsByRound s rid = filter (\<lambda>b. bet_roundId b = rid) (map snd (bets s))"

text \<open>\<open>updateBet(id, { status, profit })\<close>.\<close>

definition updateBet :: "storage \<Rightarrow> nat \<Rightarrow> bet_status \<Rightarrow> real \<Rightarrow> bet option \<times> storage" where
  "updateBet s i st pr =
     (case map_of (bets s) i of
        None \<Rightarrow> (None, s)
      | Some b \<Rightarrow>
          (let updatedBet = b\<lparr> bet_status := st, bet_profit := Some pr \<rparr>
           in (Some updatedBet, s\<lparr> bets := AList.update i updatedBet (bets s) \<rparr>)))"

definition createTransaction :: "storage \<Rightarrow> insert_transaction \<Rightarrow> transaction \<times> storage" where
  "createTransaction s insertTransaction =
     (let i = transactionId s;
          t = \<lparr> tx_id = i, tx_userId = itx_userId insertTransaction,
                tx_amount = itx_amount insertTransaction, tx_type = itx_type insertTransaction,
                tx_reference = itx_reference insertTransaction,
                tx_balanceBefore = itx_balanceBefore insertTransaction,
                tx_balanceAfter = itx_balanceAfter insertTransaction \<rparr>
      in (t, s\<lparr> transactionId := i + 1, transactions := AList.update i t (transactions s) \<rparr>))"

definition getUserBalance :: "storage \<Rightarrow> nat \<Rightarrow> real" where
  "getUserBalance s i = (case getUser s i of Some usr \<Rightarrow> u_balance usr | None \<Rightarrow> 0)"

text \<open>
  The constructor: empty maps, counters at 1, and the default admin user, created without
  a balance. \<open>adminHash\<close> stands for the password hash written in the source.
\<close>

definition emptyStorage :: storage where
  "emptyStorage = \<lparr> users = [], gameRounds = [], bets = [], transactions = [],
                     userId = 1, roundId = 1, betId = 1, transactionId = 1, roundNumber = 1 \<rparr>"

definition newMemStorage :: "string \<Rightarrow> storage" where
  "newMemStorage adminHash =
     snd (createUser emptyStorage
       \<lparr> iu_username = ''admin'', iu_password = adminHash,
         iu_email = Some ''admin@example.com'', iu_name = Some ''System Admin'',
         iu_role = Some ''admin'', iu_balance = None \<rparr>)"

section \<open>Routes and game engine (server/routes.ts)\<close>

subsection \<open>The payout table\<close>

text \<open>
  Both the bet route and \<open>completeRound\<close> carry the same three lines:
  \<open>let multiplier = 1.0; if (c === "red" || c === "green") multiplier = 2.0;
  else if (c === "violet") multiplier = 4.0\<close>.
\<close>

definition multiplierOf :: "string \<Rightarrow> real" where
  "multiplierOf c =
     (if c = ''red'' \<or> c = ''green'' then 2 else if c = ''violet'' then 4 else 1)"

definition colors :: "string list" where
  "colors = [''red'', ''green'', ''violet'']"

subsection \<open>POST /api/bets\<close>

text \<open>
  The request body as \<open>betSchema\<close> reads it. \<open>betSchema.parse\<close> throws a \<open>ZodError\<close>
  unless the colour is one of the three and the amount is positive.
\<close>

record bet_request =
  br_roundId :: nat
  br_color :: string
  br_amount :: real

definition betSchema_ok :: "bet_request \<Rightarrow> bool" where
  "betSchema_ok body \<longleftrightarrow> br_color body \<in> set colors \<and> 0 < br_amount body"

text \<open>The rejections of the route, by status code and message.\<close>

datatype bet_error =
    NotAuthenticated      \<comment> \<open>401 "Not authenticated"\<close>
  | InvalidInput          \<comment> \<open>400 "Invalid input"\<close>
  | UserNotFound          \<comment> \<open>404 "User not found"\<close>
  | InsufficientBalance   \<comment> \<open>400 "Insufficient balance"\<close>
  | RoundNotFound         \<comment> \<open>404 "Game round not found"\<close>
  | BettingEnded          \<comment> \<open>400 "Betting for this round has ended"\<close>

datatype bet_response = Created bet | Rejected bet_error

text \<open>
  The handler, with the storage calls in the order of the source. It returns the response
  together with the storage as the handler leaves it. \<open>session\<close> is \<open>req.session.userId\<close>
  and \<open>now\<close> the value of \<open>new Date()\<close>.
\<close>

definition post_bets ::
  "storage \<Rightarrow> nat option \<Rightarrow> bet_request \<Rightarrow> int \<Rightarrow> bet_response \<times> storage" where
  "post_bets s session body now =
     (case session of
        None \<Rightarrow> (Rejected NotAuthenticated, s)
      | Some uid \<Rightarrow>
          if \<not> betSchema_ok body then (Rejected InvalidInput, s)
          else (case getUser s uid of
            None \<Rightarrow> (Rejected UserNotFound, s)
          | Some usr \<Rightarrow>
              if u_balance usr < br_amount body then (Rejected InsufficientBalance, s)
              else (case getGameRound s (br_roundId body) of
                None \<Rightarrow> (Rejected RoundNotFound, s)
              | Some rnd \<Rightarrow>
                  if now \<ge> gr_endTime rnd then (Rejected BettingEnded, s)
                  else
                    (let multiplier = multiplierOf (br_color body);
                         potential = br_amount body * multiplier;
                         (b, s1) = createBet s
                           \<lparr> ib_userId = uid, ib_roundId = br_roundId body,
                             ib_color = br_color body, ib_amount = br_amount body,
                             ib_potential = potential, ib_status = Pending \<rparr>;
                         balanceBefore = u_balance usr;
                         balanceAfter = balanceBefore - br_amount body;
                         s2 = snd (updateUser s1 uid balanceAfter);
                         s3 = snd (createTransaction s2
                           \<lparr> itx_userId = uid, itx_amount = - br_amount body,
                             itx_type = BetTx, itx_reference = BetRef (bet_id b),
                             itx_balanceBefore = balanceBefore,
                             itx_balanceAfter = balanceAfter \<rparr>)
                     in (Created b, s3)))))"

subsection \<open>POST /api/admin/force-round\<close>

datatype force_error = MissingFields | ForceRoundNotFound

text \<open>
  The handler behind \<open>isAdmin\<close>. A missing, zero or empty field is falsy and gives 400.
\<close>

definition force_round ::
  "storage \<Rightarrow> nat \<Rightarrow> string \<Rightarrow> real \<Rightarrow> (force_error + game_round option) \<times> storage" where
  "force_round s rid res mult =
     (if rid = 0 \<or> res = [] \<or> mult = 0 then (Inl MissingFields, s)
      else (case getGameRound s rid of
        None \<Rightarrow> (Inl ForceRoundNotFound, s)
      | Some rnd \<Rightarrow>
          (let (updatedRound, s1) = updateGameRound s rid res mult
           in (Inr updatedRound, s1))))"

subsection \<open>The game engine\<close>

definition ROUND_DURATION_MS :: int where
  "ROUND_DURATION_MS = 60000"

text \<open>
  The body of the loop over the bets of a round: \<open>res\<close> is the drawn colour and \<open>rn\<close>
  the round number used in the reference of a win transaction.
\<close>

definition settleBet :: "string \<Rightarrow> nat \<Rightarrow> storage \<Rightarrow> bet \<Rightarrow> storage" where
  "settleBet res rn s b =
     (if bet_status b \<noteq> Pending then s
      else (case getUser s (bet_userId b) of
        None \<Rightarrow> s
      | Some usr \<Rightarrow>
          (let won = (bet_color b = res);
               status = (if won then Won else Lost);
               profit = (if won then bet_potential b - bet_amount b else 0);
               s2 = (if won then
                       (let newBalance = u_balance usr + bet_potential b;
                            s1 = snd (updateUser s (u_id usr) newBalance)
                        in snd (createTransaction s1
                             \<lparr> itx_userId = u_id usr, itx_amount = bet_potential b,
                               itx_type = WinTx, itx_reference = RoundRef rn,
                               itx_balanceBefore = u_balance usr,
                               itx_balanceAfter = newBalance \<rparr>))
                     else s)
           in snd (updateBet s2 (bet_id b) status (if won then profit else 0)))))"

text \<open>
  \<open>completeRound(round)\<close>: \<open>randomIndex\<close> is \<open>Math.floor(Math.random() * colors.length)\<close>.
  Only \<open>round.id\<close> and \<open>round.roundNumber\<close> of the argument are read. The events sent to
  the socket room are not modelled.
\<close>

definition completeRound ::
  "storage \<Rightarrow> game_round \<Rightarrow> nat \<Rightarrow> game_round option \<times> storage" where
  "completeRound s rnd randomIndex =
     (let res = colors ! randomIndex;
          multiplier = multiplierOf res;
          (updatedRound, s1) = updateGameRound s (gr_id rnd) res multiplier;
          bs = getBetsByRound s1 (gr_id rnd)
      in (updatedRound, foldl (settleBet res (gr_roundNumber rnd)) s1 bs))"

text \<open>
  \<open>createNewRound\<close>: \<open>now1\<close> is the clock read inside \<open>getActiveGameRound\<close> and \<open>now2\<close>
  the one read for the new round's start time.
\<close>

definition createNewRound ::
  "storage \<Rightarrow> int \<Rightarrow> int \<Rightarrow> nat \<Rightarrow> game_round \<times> storage" where
  "createNewRound s now1 now2 randomIndex =
     (let s1 = (case getActiveGameRound s now1 of
                  None \<Rightarrow> s
                | Some activeRound \<Rightarrow> snd (completeRound s activeRound randomIndex))
      in createGameRound s1
           \<lparr> igr_roundNumber = 0, igr_startTime = now2,
             igr_endTime = now2 + ROUND_DURATION_MS, igr_result = [], igr_multiplier = 0 \<rparr>)"

subsection \<open>Start-up accounts\<close>

text \<open>
  The first lines of \<open>registerRoutes\<close>: the demo and the admin account are created unless
  a user of that name exists. \<open>h\<close> stands for the bcrypt hash of the password.
\<close>

definition createDemoAccounts :: "storage \<Rightarrow> string \<Rightarrow> storage" where
  "createDemoAccounts s h =
     (let s1 = (case getUserByUsername s ''demo'' of
                  Some _ \<Rightarrow> s
                | None \<Rightarrow> snd (createUser s
                    \<lparr> iu_username = ''demo'', iu_password = h,
                      iu_email = Some ''demo@example.com'', iu_name = Some ''Demo User'',
                      iu_role = Some ''user'', iu_balance = Some 50000 \<rparr>))
      in (case getUserByUsername s1 ''admin'' of
            Some _ \<Rightarrow> s1
          | None \<Rightarrow> snd (createUser s1
              \<lparr> iu_username = ''admin'', iu_password = h,
                iu_email = Some ''admin@example.com'', iu_name = Some ''System Admin'',
                iu_role = Some ''admin'', iu_balance = Some 10000 \<rparr>)))"

subsection \<open>The timers of the game engine\<close>

text \<open>
  \<open>setupGameEngine\<close> creates the first round, then registers \<open>setInterval(createNewRound,
  ROUND_DURATION_MS)\<close>; every \<open>createNewRound\<close> registers
  \<open>setTimeout(completeRound(newRound), ROUND_DURATION_MS)\<close>. The engine state is the store
  together with the clock and the earliest time of the next interval callback. All storage
  calls resolve without I/O, so a callback or a request handler runs to its end before the
  next one starts: each is one step.

  The timing facts the steps rest on:
  \<^item> one clock, which never goes back;
  \<^item> a timer callback does not start before its delay has passed: the interval callback
    that starts at \<open>t0\<close> is followed by the next one at \<open>t0 + ROUND_DURATION_MS\<close> or later,
    and the completion of a round does not run before the round's end time;
  \<^item> an interval callback reads the clock twice (\<open>t1\<close> in \<open>getActiveGameRound\<close>, \<open>t2\<close>
    for the new round) and is over within one round period of its start.

  The requests (bets, forced results, registrations) arrive at any time. The stored round
  stands for the \<open>newRound\<close> object a completion timer holds: \<open>completeRound\<close> reads its
  \<open>id\<close> and \<open>roundNumber\<close> only, and no operation changes these. The administrative user
  edit is not part of the engine.
\<close>

record engine =
  store :: storage
  clock :: int
  nextTick :: int

inductive reachable :: "engine \<Rightarrow> bool" where
  start:
    "t1 \<le> t2 \<Longrightarrow> t2 \<le> t3 \<Longrightarrow>
     reachable \<lparr> store = snd (createNewRound (createDemoAccounts (newMemStorage h0) h) t1 t2 i),
                 clock = t3, nextTick = t3 + ROUND_DURATION_MS \<rparr>"
| tick:
    "reachable e \<Longrightarrow> clock e \<le> t0 \<Longrightarrow> nextTick e \<le> t0 \<Longrightarrow> t0 \<le> t1 \<Longrightarrow> t1 \<le> t2 \<Longrightarrow>
     t2 < t0 + ROUND_DURATION_MS \<Longrightarrow> i < length colors \<Longrightarrow>
     reachable \<lparr> store = snd (createNewRound (store e) t1 t2 i),
                 clock = t2, nextTick = t0 + ROUND_DURATION_MS \<rparr>"
| timeout:
    "reachable e \<Longrightarrow> (k, rnd) \<in> set (gameRounds (store e)) \<Longrightarrow> clock e \<le> t \<Longrightarrow>
     gr_endTime rnd \<le> t \<Longrightarrow> i < length colors \<Longrightarrow>
     reachable (e\<lparr> store := snd (completeRound (store e) rnd i), clock := t \<rparr>)"
| bet:
    "reachable e \<Longrightarrow> clock e \<le> t \<Longrightarrow>
     reachable (e\<lparr> store := snd (post_bets (store e) session body t), clock := t \<rparr>)"
| force:
    "reachable e \<Longrightarrow> clock e \<le> t \<Longrightarrow>
     reachable (e\<lparr> store := snd (force_round (store e) rid res mult), clock := t \<rparr>)"
| register:
    "reachable e \<Longrightarrow> clock e \<le> t \<Longrightarrow>
     reachable (e\<lparr> store := snd (createUser (store e) insertUser), clock := t \<rparr>)"
| wait:
    "reachable e \<Longrightarrow> clock e \<le> t \<Longrightarrow> reachable (e\<lparr> clock := t \<rparr>)"

text \<open>A round is open when its outcome is undecided and the clock is before its end time.\<close>

definition round_open :: "int \<Rightarrow> game_round \<Rightarrow> bool" where
  "round_open now rnd \<longleftrightarrow> gr_result rnd = [] \<and> now < gr_endTime rnd"

definition open_rounds :: "engine \<Rightarrow> game_round list" where
  "open_rounds e = filter (round_open (clock e)) (map snd (gameRounds (store e)))"

section \<open>Auxiliary definitions\<close>

text \<open>
  The representation invariant of the store: the keys of each map are distinct and below
  the counter that issues them, a user, round or bet is stored under its own id, and the
  owner of every bet is a stored user. Every state of the engine satisfies it (lemma
  \<open>reachable_wf\<close> below).
\<close>

definition wf_storage :: "storage \<Rightarrow> bool" where
  "wf_storage s \<longleftrightarrow>
     distinct (map fst (users s)) \<and> distinct (map fst (gameRounds s))
   \<and> distinct (map fst (bets s)) \<and> distinct (map fst (transactions s))
   \<and> (\<forall>(k, usr) \<in> set (users s). u_id usr = k \<and> k < userId s)
   \<and> (\<forall>(k, rnd) \<in> set (gameRounds s). gr_id rnd = k \<and> k < roundId s)
   \<and> (\<forall>(k, b) \<in> set (bets s). bet_id b = k \<and> k < betId s \<and> bet_userId b \<in> fst ` set (users s))
   \<and> (\<forall>(k, t) \<in> set (transactions s). k < transactionId s)"

text \<open>What settlement with drawn colour \<open>res\<close> makes of a bet.\<close>

definition resolved :: "string \<Rightarrow> bet \<Rightarrow> bet" where
  "resolved res b =
     (if bet_status b = Pending
      then b\<lparr> bet_status := (if bet_color b = res then Won else Lost),
              bet_profit := Some (if bet_color b = res then bet_potential b - bet_amount b else 0) \<rparr>
      else b)"

text \<open>The objects the bet route passes to \<open>createBet\<close> and \<open>createTransaction\<close>.\<close>

definition bet_insert :: "nat \<Rightarrow> bet_request \<Rightarrow> insert_bet" where
  "bet_insert uid body =
     \<lparr> ib_userId = uid, ib_roundId = br_roundId body, ib_color = br_color body,
       ib_amount = br_amount body,
       ib_potential = br_amount body * multiplierOf (br_color body), ib_status = Pending \<rparr>"

definition bet_tx :: "nat \<Rightarrow> bet_request \<Rightarrow> real \<Rightarrow> nat \<Rightarrow> insert_transaction" where
  "bet_tx uid body bal bid =
     \<lparr> itx_userId = uid, itx_amount = - br_amount body, itx_type = BetTx,
       itx_reference = BetRef bid, itx_balanceBefore = bal,
       itx_balanceAfter = bal - br_amount body \<rparr>"

text \<open>The transaction \<open>completeRound\<close> stores for a won bet.\<close>

definition win_tx :: "nat \<Rightarrow> bet \<Rightarrow> real \<Rightarrow> nat \<Rightarrow> transaction" where
  "win_tx i b bal rn =
     \<lparr> tx_id = i, tx_userId = bet_userId b, tx_amount = bet_potential b, tx_type = WinTx,
       tx_reference = RoundRef rn, tx_balanceBefore = bal,
       tx_balanceAfter = bal + bet_potential b \<rparr>"

text \<open>The rounds in insertion order, and the invariant of the round cycle: the newest
  round has started and ends less than a period after the next interval callback; every
  older round ends before that callback and is decided or over.\<close>

definition rounds :: "storage \<Rightarrow> game_round list" where
  "rounds s = map snd (gameRounds s)"

definition rounds_inv :: "game_round list \<Rightarrow> int \<Rightarrow> int \<Rightarrow> bool" where
  "rounds_inv rs c n \<longleftrightarrow>
     (case rev rs of
        [] \<Rightarrow> True
      | l # older \<Rightarrow>
          gr_startTime l \<le> c \<and> gr_endTime l < n + ROUND_DURATION_MS
        \<and> (\<forall>r \<in> set older. gr_endTime r < n \<and> (gr_result r \<noteq> [] \<or> gr_endTime r \<le> c)))"

text \<open>
  The order of checks as the specification words it: the round exists; the round is open
  (the time is before its end and its outcome is undecided); the stake is positive; the
  balance covers the stake. The result is the first check that fails.
\<close>

definition spec_first_rejection :: "storage \<Rightarrow> nat \<Rightarrow> bet_request \<Rightarrow> int \<Rightarrow> bet_error option" where
  "spec_first_rejection s uid body now =
     (case getGameRound s (br_roundId body) of
        None \<Rightarrow> Some RoundNotFound
      | Some rnd \<Rightarrow>
          if \<not> (now < gr_endTime rnd \<and> gr_result rnd = []) then Some BettingEnded
          else if \<not> 0 < br_amount body then Some InvalidInput
          else if \<not> br_amount body \<le> getUserBalance s uid then Some InsufficientBalance
          else None)"

subsection \<open>Scenario states\<close>

text \<open>
  The store after start-up (admin and demo account, round 1 from 0 to 60000), the requests
  of the scenarios, and the stores they lead to. The demo user has id 2.
\<close>

definition scenario_start :: storage where
  "scenario_start =
     snd (createNewRound (createDemoAccounts (newMemStorage ''x'') ''y'') 0 0 0)"

definition admin_user :: user where
  "admin_user = \<lparr> u_id = 1, u_username = ''admin'', u_password = ''x'',
       u_email = Some ''admin@example.com'', u_name = Some ''System Admin'',
       u_role = Some ''admin'', u_balance = 1000 \<rparr>"

definition demo_user :: user where
  "demo_user = \<lparr> u_id = 2, u_username = ''demo'', u_password = ''y'',
       u_email = Some ''demo@example.com'', u_name = Some ''Demo User'',
       u_role = Some ''user'', u_balance = 1000 \<rparr>"

definition round_1 :: game_round where
  "round_1 = \<lparr> gr_id = 1, gr_roundNumber = 1, gr_startTime = 0, gr_endTime = 60000,
       gr_result = [], gr_multiplier = 0 \<rparr>"

definition violet_50 :: bet_request where
  "violet_50 = \<lparr> br_roundId = 1, br_color = ''violet'', br_amount = 50 \<rparr>"

definition red_100 :: bet_request where
  "red_100 = \<lparr> br_roundId = 1, br_color = ''red'', br_amount = 100 \<rparr>"

definition red_5000_round_7 :: bet_request where
  "red_5000_round_7 = \<lparr> br_roundId = 7, br_color = ''red'', br_amount = 5000 \<rparr>"

definition violet_bet :: bet where
  "violet_bet = \<lparr> bet_id = 1, bet_userId = 2, bet_roundId = 1, bet_color = ''violet'',
       bet_amount = 50, bet_potential = 200, bet_status = Pending, bet_profit = None \<rparr>"

definition red_bet :: bet where
  "red_bet = \<lparr> bet_id = 1, bet_userId = 2, bet_roundId = 1, bet_color = ''red'',
       bet_amount = 100, bet_potential = 200, bet_status = Pending, bet_profit = None \<rparr>"

definition bet_tx_50 :: transaction where
  "bet_tx_50 = \<lparr> tx_id = 1, tx_userId = 2, tx_amount = - 50, tx_type = BetTx,
       tx_reference = BetRef 1, tx_balanceBefore = 1000, tx_balanceAfter = 950 \<rparr>"

definition win_tx_200 :: transaction where
  "win_tx_200 = \<lparr> tx_id = 2, tx_userId = 2, tx_amount = 200, tx_type = WinTx,
       tx_reference = RoundRef 1, tx_balanceBefore = 950, tx_balanceAfter = 1150 \<rparr>"

text \<open>The demo user has bet 50 on violet in round 1.\<close>

definition scenario_violet :: storage where
  "scenario_violet = snd (post_bets scenario_start (Some 2) violet_50 1000)"

text \<open>An administrator has forced the result of round 1, before and after that bet.\<close>

definition scenario_forced :: storage where
  "scenario_forced = snd (force_round scenario_start 1 ''green'' 2)"

definition scenario_forced_violet :: storage where
  "scenario_forced_violet = snd (force_round scenario_violet 1 ''violet'' 4)"

text \<open>
  The engine after start-up at time 0; after the first interval callback, which starts at
  60000 and creates round 2 at 60010; and after the second one at 120000, ten milliseconds
  before round 2 ends.
\<close>

definition engine_started :: engine where
  "engine_started = \<lparr> store = scenario_start, clock = 0, nextTick = 0 + ROUND_DURATION_MS \<rparr>"

definition engine_ticked :: engine where
  "engine_ticked = \<lparr> store = snd (createNewRound (store engine_started) 60000 60010 0),
       clock = 60010, nextTick = 60000 + ROUND_DURATION_MS \<rparr>"

definition engine_ticked_twice :: engine where
  "engine_ticked_twice = \<lparr> store = snd (createNewRound (store engine_ticked) 120000 120000 1),
       clock = 120000, nextTick = 120000 + ROUND_DURATION_MS \<rparr>"

section \<open>Account creation\<close>

text \<open>
  C10. Whatever the input, a user created by \<open>createUser\<close> has balance 1000: a balance of
  the input is overwritten. After the constructor and the start-up code have run, the demo
  and the admin account both exist with balance 1000, although the start-up code asks for
  50000 and 10000.
\<close>

theorem createUser_balance_1000:
  "u_balance (fst (createUser s insertUser)) = 1000
   \<and> getUser (snd (createUser s insertUser)) (userId s) = Some (fst (createUser s insertUser))
   \<and> map_option u_balance (getUserByUsername (createDemoAccounts (newMemStorage h0) h) ''demo'')
       = Some 1000
   \<and> map_option u_balance (getUserByUsername (createDemoAccounts (newMemStorage h0) h) ''admin'')
       = Some 1000
   \<and> map_option u_balance
       (getUserByUsername (createDemoAccounts emptyStorage h) ''admin'') = Some 1000"
  by (simp add: createUser_def getUser_def getUserByUsername_def createDemoAccounts_def
      newMemStorage_def emptyStorage_def Let_def AList.update_conv')

section \<open>Storage lemmas\<close>

lemma update_fresh: "k \<notin> fst ` set al \<Longrightarrow> AList.update k v al = al @ [(k, v)]"
  by (induction al) auto

lemma set_update_subset: "set (AList.update k v al) \<subseteq> insert (k, v) (set al)"
  by (induction al) auto

lemma set_update_distinct:
  "distinct (map fst al) \<Longrightarrow> set (AList.update k v al) = insert (k, v) {p \<in> set al. fst p \<noteq> k}"
  by (induction al) (auto simp: rev_image_eqI)

lemma wf_emptyStorage: "wf_storage emptyStorage"
  by (simp add: wf_storage_def emptyStorage_def)

lemma wf_createUser: "wf_storage s \<Longrightarrow> wf_storage (snd (createUser s iu))"
  unfolding wf_storage_def createUser_def Let_def
  by (auto simp: distinct_update dom_update dest!: subsetD[OF set_update_subset] intro: less_SucI)

lemma wf_updateUser: "wf_storage s \<Longrightarrow> wf_storage (snd (updateUser s i nb))"
  unfolding wf_storage_def updateUser_def Let_def
  apply (auto simp: distinct_update dom_update  split: option.splits dest!: subsetD[OF set_update_subset] map_of_SomeD)
  done

lemma wf_createGameRound: "wf_storage s \<Longrightarrow> wf_storage (snd (createGameRound s ir))"
  unfolding wf_storage_def createGameRound_def Let_def
  by (auto simp: distinct_update dom_update dest!: subsetD[OF set_update_subset] intro: less_SucI)

lemma wf_updateGameRound: "wf_storage s \<Longrightarrow> wf_storage (snd (updateGameRound s i r m))"
  unfolding wf_storage_def updateGameRound_def Let_def
  by (auto simp: distinct_update dom_update split: option.splits
      dest!: subsetD[OF set_update_subset] map_of_SomeD)

lemma wf_createBet:
  "wf_storage s \<Longrightarrow> ib_userId ib \<in> fst ` set (users s) \<Longrightarrow> wf_storage (snd (createBet s ib))"
  unfolding wf_storage_def createBet_def Let_def
  by (auto simp: distinct_update dom_update dest!: subsetD[OF set_update_subset]
      intro: less_SucI rev_image_eqI)

lemma wf_updateBet: "wf_storage s \<Longrightarrow> wf_storage (snd (updateBet s i st pr))"
  unfolding wf_storage_def updateBet_def Let_def
  by (auto simp: distinct_update dom_update split: option.splits
      dest!: subsetD[OF set_update_subset] map_of_SomeD)

lemma wf_createTransaction: "wf_storage s \<Longrightarrow> wf_storage (snd (createTransaction s it))"
  unfolding wf_storage_def createTransaction_def Let_def
  by (auto simp: distinct_update dom_update dest!: subsetD[OF set_update_subset] intro: less_SucI)

lemma wf_settleBet: "wf_storage s \<Longrightarrow> wf_storage (settleBet res rn s b)"
  unfolding settleBet_def Let_def
  by (auto split: option.splits intro!: wf_updateBet wf_createTransaction wf_updateUser)

lemma wf_foldl_settleBet: "wf_storage s \<Longrightarrow> wf_storage (foldl (settleBet res rn) s bs)"
  by (induction bs arbitrary: s) (auto intro: wf_settleBet)

lemma wf_completeRound: "wf_storage s \<Longrightarrow> wf_storage (snd (completeRound s rnd i))"
  unfolding completeRound_def Let_def
  by (auto split: prod.splits intro!: wf_foldl_settleBet dest: wf_updateGameRound[where i="gr_id rnd" and r="colors ! i" and m = "multiplierOf (colors ! i)"])

lemma wf_force_round: "wf_storage s \<Longrightarrow> wf_storage (snd (force_round s rid res mult))"
  unfolding force_round_def Let_def
  by (auto split: option.splits prod.splits
      dest: wf_updateGameRound[where i=rid and r=res and m=mult])

lemma wf_createNewRound: "wf_storage s \<Longrightarrow> wf_storage (snd (createNewRound s n1 n2 i))"
  unfolding createNewRound_def Let_def
  by (auto split: option.splits intro!: wf_createGameRound wf_completeRound)

lemma createBet_users [simp]: "users (snd (createBet s ib)) = users s"
  by (simp add: createBet_def Let_def)

lemma wf_post_bets: "wf_storage s \<Longrightarrow> wf_storage (snd (post_bets s session body now))"
  unfolding post_bets_def Let_def getUser_def case_prod_beta
  by (auto split: option.splits dest!: map_of_SomeD
      intro!: wf_createTransaction wf_updateUser wf_createBet intro: rev_image_eqI)

lemma settleBet_bets_keys: "map fst (bets (settleBet res rn s b)) = map fst (bets s)"
  unfolding settleBet_def Let_def updateBet_def updateUser_def createTransaction_def
  by (auto split: option.splits simp: update_keys dest!: map_of_SomeD intro: rev_image_eqI)

lemma settleBet_bets_map_of:
  "map_of (bets (settleBet res rn s b)) k =
     (if k = bet_id b \<and> bet_status b = Pending \<and> getUser s (bet_userId b) \<noteq> None
      then map_option (\<lambda>x. x\<lparr> bet_status := (if bet_color b = res then Won else Lost),
              bet_profit := Some (if bet_color b = res then bet_potential b - bet_amount b else 0) \<rparr>)
             (map_of (bets s) k)
      else map_of (bets s) k)"
  unfolding settleBet_def Let_def updateBet_def updateUser_def createTransaction_def getUser_def
  by (auto split: option.splits simp: update_conv')

lemma settleBet_frame:
  "gameRounds (settleBet res rn s b) = gameRounds s"
  "roundId (settleBet res rn s b) = roundId s"
  "roundNumber (settleBet res rn s b) = roundNumber s"
  "betId (settleBet res rn s b) = betId s"
  "userId (settleBet res rn s b) = userId s"
  unfolding settleBet_def Let_def updateBet_def updateUser_def createTransaction_def getUser_def
  by (auto split: option.splits)

lemma settleBet_users_dom:
  "fst ` set (users (settleBet res rn s b)) = fst ` set (users s)"
  unfolding settleBet_def Let_def updateBet_def updateUser_def createTransaction_def getUser_def
  by (auto split: option.splits simp: dom_update dest!: map_of_SomeD intro: rev_image_eqI)

lemma getUser_None_iff: "getUser s k = None \<longleftrightarrow> k \<notin> fst ` set (users s)"
  by (simp add: getUser_def map_of_eq_None_iff)

lemma foldl_settleBet_keys:
  "map fst (bets (foldl (settleBet res rn) s bs)) = map fst (bets s)"
  by (induction bs arbitrary: s) (simp_all add: settleBet_bets_keys)

lemma foldl_settleBet_map_of:
  assumes "distinct (map bet_id bs)"
    and "\<forall>b \<in> set bs. map_of (bets s) (bet_id b) = Some b \<and> getUser s (bet_userId b) \<noteq> None"
  shows "map_of (bets (foldl (settleBet res rn) s bs)) k =
           (if k \<in> bet_id ` set bs then map_option (resolved res) (map_of (bets s) k)
            else map_of (bets s) k)"
  using assms
proof (induction bs arbitrary: s)
  case Nil
  then show ?case by simp
next
  case (Cons b bs)
  let ?s1 = "settleBet res rn s b"
  have d: "distinct (map bet_id bs)" and nb: "bet_id b \<notin> bet_id ` set bs"
    using Cons.prems(1) by auto
  have stored: "map_of (bets s) (bet_id b) = Some b" and usr: "getUser s (bet_userId b) \<noteq> None"
    using Cons.prems(2) by auto
  have pre: "\<forall>x \<in> set bs. map_of (bets ?s1) (bet_id x) = Some x \<and> getUser ?s1 (bet_userId x) \<noteq> None"
  proof
    fix x assume x: "x \<in> set bs"
    then have "bet_id x \<in> bet_id ` set bs" by (rule imageI)
    then have "bet_id x \<noteq> bet_id b" using nb by auto
    moreover have "map_of (bets s) (bet_id x) = Some x" "getUser s (bet_userId x) \<noteq> None"
      using Cons.prems(2) x by auto
    ultimately show "map_of (bets ?s1) (bet_id x) = Some x \<and> getUser ?s1 (bet_userId x) \<noteq> None"
      by (simp add: settleBet_bets_map_of getUser_None_iff settleBet_users_dom)
  qed
  have ih: "map_of (bets (foldl (settleBet res rn) ?s1 bs)) k =
           (if k \<in> bet_id ` set bs then map_option (resolved res) (map_of (bets ?s1) k)
            else map_of (bets ?s1) k)"
    by (rule Cons.IH[OF d pre])
  show ?case
  proof (cases "k = bet_id b")
    case True
    then show ?thesis using ih nb stored usr
      by (simp add: settleBet_bets_map_of resolved_def)
  next
    case False
    then show ?thesis using ih by (simp add: settleBet_bets_map_of)
  qed
qed

lemma alist_eqI:
  "distinct (map fst xs) \<Longrightarrow> map fst xs = map fst ys \<Longrightarrow> map_of xs = map_of ys \<Longrightarrow> xs = ys"
proof (induction xs arbitrary: ys)
  case Nil
  then show ?case by simp
next
  case (Cons x xs)
  then obtain y ys' where ys: "ys = y # ys'" by (cases ys) auto
  with Cons.prems have k: "fst y = fst x" and ks: "map fst xs = map fst ys'" by auto
  have "map_of (x # xs) (fst x) = map_of ys (fst x)" using Cons.prems(3) by (rule fun_cong)
  then have v: "snd x = snd y" using ys k by simp
  have "map_of xs = map_of ys'"
  proof
    fix a
    show "map_of xs a = map_of ys' a"
    proof (cases "a = fst x")
      case True
      have "fst x \<notin> set (map fst xs)" using Cons.prems(1) by simp
      moreover from this have "fst x \<notin> set (map fst ys')" using ks by simp
      ultimately have "map_of xs (fst x) = None" "map_of ys' (fst x) = None"
        by (simp_all add: map_of_eq_None_iff)
      then show ?thesis using True by simp
    next
      case False
      then show ?thesis using fun_cong[OF Cons.prems(3), of a] ys k by simp
    qed
  qed
  then have "xs = ys'" using Cons.IH Cons.prems(1) ks by simp
  then show ?case using ys k v by (simp add: prod_eq_iff)
qed

lemma updateGameRound_frame [simp]:
  "bets (snd (updateGameRound s i r m)) = bets s"
  "users (snd (updateGameRound s i r m)) = users s"
  "transactions (snd (updateGameRound s i r m)) = transactions s"
  "transactionId (snd (updateGameRound s i r m)) = transactionId s"
  by (simp_all add: updateGameRound_def Let_def split: option.splits)

lemma wf_bet_stored:
  assumes "wf_storage s" "(k, b) \<in> set (bets s)"
  shows "map_of (bets s) (bet_id b) = Some b" "bet_id b = k" "getUser s (bet_userId b) \<noteq> None"
  using assms unfolding wf_storage_def getUser_None_iff by auto

lemma wf_bet_ids: "wf_storage s \<Longrightarrow> map bet_id (map snd (bets s)) = map fst (bets s)"
  unfolding wf_storage_def by auto

lemma wf_distinct_round_bets:
  assumes "wf_storage s"
  shows "distinct (map bet_id (getBetsByRound s rid))"
proof -
  have "distinct (map bet_id (map snd (bets s)))"
    using assms unfolding wf_bet_ids[OF assms] wf_storage_def by simp
  then show ?thesis unfolding getBetsByRound_def by (rule distinct_map_filter)
qed

lemma completeRound_bets:
  assumes wf: "wf_storage s"
  shows "bets (snd (completeRound s rnd i)) =
           map (\<lambda>(k, x). (k, if bet_roundId x = gr_id rnd then resolved (colors ! i) x else x))
             (bets s)"
    (is "?l = map (\<lambda>(k, x). (k, ?g x)) _")
proof (rule alist_eqI[symmetric])
  let ?s1 = "snd (updateGameRound s (gr_id rnd) (colors ! i) (multiplierOf (colors ! i)))"
  let ?bs = "getBetsByRound s (gr_id rnd)"
  have l: "?l = bets (foldl (settleBet (colors ! i) (gr_roundNumber rnd)) ?s1 ?bs)"
    by (simp add: completeRound_def Let_def case_prod_beta getBetsByRound_def)
  have keys: "map fst ?l = map fst (bets s)"
    unfolding l by (simp add: foldl_settleBet_keys)
  show "distinct (map fst (map (\<lambda>(k, x). (k, ?g x)) (bets s)))"
    using wf by (simp add: wf_storage_def comp_def case_prod_beta)
  show "map fst (map (\<lambda>(k, x). (k, ?g x)) (bets s)) = map fst ?l"
    unfolding keys by (simp add: comp_def case_prod_beta)
  have d: "distinct (map bet_id ?bs)" by (rule wf_distinct_round_bets[OF wf])
  have pre: "\<forall>b \<in> set ?bs. map_of (bets ?s1) (bet_id b) = Some b \<and> getUser ?s1 (bet_userId b) \<noteq> None"
    using wf_bet_stored[OF wf] by (auto simp: getBetsByRound_def getUser_def)
  show "map_of (map (\<lambda>(k, x). (k, ?g x)) (bets s)) = map_of ?l"
  proof
    fix k
    have in_iff: "k \<in> bet_id ` set ?bs \<longleftrightarrow>
                    (\<exists>x. map_of (bets s) k = Some x \<and> bet_roundId x = gr_id rnd)"
    proof
      assume "k \<in> bet_id ` set ?bs"
      then obtain b where "b \<in> set ?bs" "k = bet_id b" by auto
      then show "\<exists>x. map_of (bets s) k = Some x \<and> bet_roundId x = gr_id rnd"
        using wf_bet_stored(1)[OF wf] by (auto simp: getBetsByRound_def)
    next
      assume "\<exists>x. map_of (bets s) k = Some x \<and> bet_roundId x = gr_id rnd"
      then obtain x where x: "map_of (bets s) k = Some x" "bet_roundId x = gr_id rnd" by auto
      then have "(k, x) \<in> set (bets s)" by (auto dest: map_of_SomeD)
      moreover from this have "bet_id x = k" using wf_bet_stored(2)[OF wf] by auto
      ultimately show "k \<in> bet_id ` set ?bs"
        using x(2) by (force simp: getBetsByRound_def)
    qed
    show "map_of (map (\<lambda>(k, x). (k, ?g x)) (bets s)) k = map_of ?l k"
      unfolding l foldl_settleBet_map_of[OF d pre] in_iff
      by (cases "map_of (bets s) k") (auto simp: map_of_map)
  qed
qed

lemma settleBet_potential:
  "map_option bet_potential (map_of (bets (settleBet res rn s b)) k)
     = map_option bet_potential (map_of (bets s) k)"
  by (cases "map_of (bets s) k") (auto simp add: settleBet_bets_map_of)

lemma foldl_settleBet_potential:
  "map_option bet_potential (map_of (bets (foldl (settleBet res rn) s bs)) k)
     = map_option bet_potential (map_of (bets s) k)"
  by (induction bs arbitrary: s) (simp_all add: settleBet_potential)

lemma completeRound_potential:
  "map_option bet_potential (getBet (snd (completeRound s rnd i)) k)
     = map_option bet_potential (getBet s k)"
  by (simp add: completeRound_def Let_def case_prod_beta getBet_def foldl_settleBet_potential)

lemma force_round_bets [simp]: "bets (snd (force_round s rid res mult)) = bets s"
  by (simp add: force_round_def Let_def case_prod_beta split: option.splits)

lemma createGameRound_bets [simp]: "bets (snd (createGameRound s ir)) = bets s"
  by (simp add: createGameRound_def Let_def)

lemma createNewRound_potential:
  "map_option bet_potential (getBet (snd (createNewRound s n1 n2 i)) k)
     = map_option bet_potential (getBet s k)"
  using completeRound_potential
  by (simp add: createNewRound_def Let_def getBet_def split: option.splits)

lemma multiplierOf_valid:
  "c \<in> set colors \<Longrightarrow> multiplierOf c = (if c = ''violet'' then 4 else 2)"
  by (auto simp: colors_def multiplierOf_def)

lemma colors_set: "set colors = {''red'', ''green'', ''violet''}"
  by (simp add: colors_def)

lemma post_bets_CreatedE:
  assumes "fst (post_bets s session body now) = Created b"
  obtains uid usr rnd where "session = Some uid" "betSchema_ok body" "getUser s uid = Some usr"
    "\<not> u_balance usr < br_amount body"
    "getGameRound s (br_roundId body) = Some rnd" "now < gr_endTime rnd"
    "b = fst (createBet s (bet_insert uid body))"
    "snd (post_bets s session body now) =
       snd (createTransaction
         (snd (updateUser (snd (createBet s (bet_insert uid body))) uid
                (u_balance usr - br_amount body)))
         (bet_tx uid body (u_balance usr) (bet_id b)))"
  using assms unfolding post_bets_def Let_def case_prod_beta bet_insert_def bet_tx_def
  by (auto split: option.splits if_splits)

lemma post_bets_Created_bet:
  assumes "fst (post_bets s session body now) = Created b"
  shows "bet_potential b = br_amount body * (if br_color body = ''violet'' then 4 else 2)"
    and "br_color body \<in> {''red'', ''green'', ''violet''}"
    and "bet_color b = br_color body" and "bet_amount b = br_amount body"
    and "bet_status b = Pending" and "bet_id b = betId s"
    and "getBet (snd (post_bets s session body now)) (bet_id b) = Some b"
proof -
  from assms obtain uid usr rnd where
    "session = Some uid" and ok: "betSchema_ok body" and "getUser s uid = Some usr" and
    "\<not> u_balance usr < br_amount body" and
    "getGameRound s (br_roundId body) = Some rnd" and "now < gr_endTime rnd" and
    b: "b = fst (createBet s (bet_insert uid body))" and
    s': "snd (post_bets s session body now) =
       snd (createTransaction
         (snd (updateUser (snd (createBet s (bet_insert uid body))) uid
                (u_balance usr - br_amount body)))
         (bet_tx uid body (u_balance usr) (bet_id b)))"
    by (rule post_bets_CreatedE)
  from ok have c: "br_color body \<in> set colors" by (simp add: betSchema_ok_def)
  then show "br_color body \<in> {''red'', ''green'', ''violet''}" by (simp only: colors_set)
  show "bet_potential b = br_amount body * (if br_color body = ''violet'' then 4 else 2)"
    unfolding b by (simp add: createBet_def Let_def bet_insert_def multiplierOf_valid[OF c])
  show "bet_color b = br_color body" "bet_amount b = br_amount body" "bet_status b = Pending"
    "bet_id b = betId s"
    unfolding b by (simp_all add: createBet_def Let_def bet_insert_def)
  show "getBet (snd (post_bets s session body now)) (bet_id b) = Some b"
    unfolding s' unfolding b
    by (simp add: getBet_def createBet_def createTransaction_def updateUser_def Let_def
        update_conv' split: option.splits)
qed

text \<open>
  C6. The potential payout of an accepted wager is fixed when the bet is placed: it is the
  stake times the multiplier of the chosen colour, 2 for red and green and 4 for violet
  (the schema admits no other colour). Nothing recomputes it afterwards: completing a
  round, creating the next round and forcing a result leave the potential of every stored
  bet as it was.
\<close>

theorem potential_fixed_at_intake:
  "(fst (post_bets s session body now) = Created b \<longrightarrow>
       bet_potential b = br_amount body * (if br_color body = ''violet'' then 4 else 2)
     \<and> br_color body \<in> {''red'', ''green'', ''violet''}
     \<and> bet_color b = br_color body \<and> bet_amount b = br_amount body
     \<and> getBet (snd (post_bets s session body now)) (bet_id b) = Some b)
   \<and> map_option bet_potential (getBet (snd (completeRound s rnd i)) k)
       = map_option bet_potential (getBet s k)
   \<and> map_option bet_potential (getBet (snd (createNewRound s n1 n2 i)) k)
       = map_option bet_potential (getBet s k)
   \<and> map_option bet_potential (getBet (snd (force_round s rid res mult)) k)
       = map_option bet_potential (getBet s k)"
proof -
  have "map_option bet_potential (getBet (snd (force_round s rid res mult)) k)
       = map_option bet_potential (getBet s k)"
    by (simp add: getBet_def)
  then show ?thesis
    using post_bets_Created_bet[of s session body now b]
    by (simp add: completeRound_potential createNewRound_potential)
qed

lemma post_bets_Rejected_same:
  "fst (post_bets s session body now) = Rejected e \<Longrightarrow> snd (post_bets s session body now) = s"
  unfolding post_bets_def Let_def case_prod_beta
  by (auto split: option.splits if_splits)

lemma post_bets_rejects:
  assumes "getGameRound s (br_roundId body) = None
        \<or> (\<exists>rnd. getGameRound s (br_roundId body) = Some rnd \<and> gr_endTime rnd \<le> now)
        \<or> br_amount body \<le> 0 \<or> br_color body \<notin> set colors
        \<or> (\<exists>uid usr. session = Some uid \<and> getUser s uid = Some usr
              \<and> u_balance usr < br_amount body)"
  shows "\<exists>e'. fst (post_bets s session body now) = Rejected e'"
  using assms unfolding post_bets_def Let_def case_prod_beta betSchema_ok_def
  by (auto split: option.splits)

text \<open>
  C5. A bet request that is rejected leaves the store exactly as it was: no balance
  changes, no bet is created, no transaction is appended. A request is rejected whenever
  its round is missing, the end time of its round has passed, its stake is not positive,
  its colour is not one of the three, or its stake exceeds the balance of the user.
\<close>

theorem post_bets_reject_no_change:
  "(fst (post_bets s session body now) = Rejected e \<longrightarrow> snd (post_bets s session body now) = s)
   \<and> (getGameRound s (br_roundId body) = None
        \<or> (\<exists>rnd. getGameRound s (br_roundId body) = Some rnd \<and> gr_endTime rnd \<le> now)
        \<or> br_amount body \<le> 0 \<or> br_color body \<notin> set colors
        \<or> (\<exists>uid usr. session = Some uid \<and> getUser s uid = Some usr
              \<and> u_balance usr < br_amount body)
      \<longrightarrow> (\<exists>e'. fst (post_bets s session body now) = Rejected e')
          \<and> snd (post_bets s session body now) = s)"
  using post_bets_Rejected_same post_bets_rejects[of s body now session] by blast

lemma wf_user_id: "wf_storage s \<Longrightarrow> getUser s k = Some usr \<Longrightarrow> u_id usr = k"
  unfolding wf_storage_def getUser_def by (auto dest!: map_of_SomeD)

lemma wf_tx_fresh: "wf_storage s \<Longrightarrow> transactionId s \<notin> fst ` set (transactions s)"
  unfolding wf_storage_def by auto

lemma settleBet_won:
  assumes wf: "wf_storage s" and "bet_status b = Pending"
    and usr: "getUser s (bet_userId b) = Some usr" and "bet_color b = res"
  shows "users (settleBet res rn s b) =
           AList.update (bet_userId b) (usr\<lparr> u_balance := u_balance usr + bet_potential b \<rparr>) (users s)"
    and "transactions (settleBet res rn s b) =
           transactions s @ [(transactionId s, win_tx (transactionId s) b (u_balance usr) rn)]"
    and "transactionId (settleBet res rn s b) = transactionId s + 1"
proof -
  have i: "u_id usr = bet_userId b" by (rule wf_user_id[OF wf usr])
  have m: "map_of (users s) (bet_userId b) = Some usr" using usr by (simp add: getUser_def)
  show "users (settleBet res rn s b) =
           AList.update (bet_userId b) (usr\<lparr> u_balance := u_balance usr + bet_potential b \<rparr>) (users s)"
    using assms(2,4) usr i m
    by (simp add: settleBet_def Let_def updateUser_def createTransaction_def updateBet_def
        split: option.splits)
  show "transactions (settleBet res rn s b) =
           transactions s @ [(transactionId s, win_tx (transactionId s) b (u_balance usr) rn)]"
    using assms(2,4) usr i m update_fresh[OF wf_tx_fresh[OF wf]]
    by (simp add: settleBet_def Let_def updateUser_def createTransaction_def updateBet_def
        win_tx_def split: option.splits)
  show "transactionId (settleBet res rn s b) = transactionId s + 1"
    using assms(2,4) usr i m
    by (simp add: settleBet_def Let_def updateUser_def createTransaction_def updateBet_def
        split: option.splits)
qed

lemma settleBet_not_won:
  assumes "\<not> (bet_status b = Pending \<and> getUser s (bet_userId b) \<noteq> None \<and> bet_color b = res)"
  shows "users (settleBet res rn s b) = users s"
    and "transactions (settleBet res rn s b) = transactions s"
    and "transactionId (settleBet res rn s b) = transactionId s"
  using assms
  by (auto simp add: settleBet_def Let_def updateBet_def split: option.splits)

lemma getUserBalance_update:
  "getUserBalance (s\<lparr> users := AList.update k usr (users s) \<rparr>) u
     = (if u = k then u_balance usr else getUserBalance s u)"
  by (simp add: getUserBalance_def getUser_def update_conv')

lemma getUserBalance_cong: "users s' = users s \<Longrightarrow> getUserBalance s' u = getUserBalance s u"
  by (simp add: getUserBalance_def getUser_def)

lemma getUser_cong: "users s' = users s \<Longrightarrow> getUser s' u = getUser s u"
  by (simp add: getUser_def)

lemma settleBet_balance:
  assumes wf: "wf_storage s"
  shows "getUserBalance (settleBet res rn s b) u =
           getUserBalance s u +
           (if bet_status b = Pending \<and> bet_color b = res \<and> bet_userId b = u \<and> getUser s u \<noteq> None
            then bet_potential b else 0)"
proof (cases "bet_status b = Pending \<and> getUser s (bet_userId b) \<noteq> None \<and> bet_color b = res")
  case True
  then obtain usr where usr: "getUser s (bet_userId b) = Some usr" by auto
  have "users (settleBet res rn s b) =
           AList.update (bet_userId b) (usr\<lparr> u_balance := u_balance usr + bet_potential b \<rparr>) (users s)"
    using settleBet_won(1)[OF wf _ usr] True by simp
  then have "getUserBalance (settleBet res rn s b) u =
      (if u = bet_userId b then u_balance usr + bet_potential b else getUserBalance s u)"
    by (simp add: getUserBalance_def getUser_def update_conv')
  then show ?thesis using True usr by (auto simp: getUserBalance_def)
next
  case False
  have "getUserBalance (settleBet res rn s b) u = getUserBalance s u"
    by (rule getUserBalance_cong[OF settleBet_not_won(1)[OF False]])
  then show ?thesis using False by auto
qed

lemma foldl_settleBet_balance:
  assumes "wf_storage s"
  shows "getUserBalance (foldl (settleBet res rn) s bs) u =
           getUserBalance s u +
           (\<Sum>b\<leftarrow>bs. if bet_status b = Pending \<and> bet_color b = res \<and> bet_userId b = u
                          \<and> getUser s u \<noteq> None
                      then bet_potential b else 0)"
  using assms
proof (induction bs arbitrary: s)
  case Nil
  then show ?case by simp
next
  case (Cons b bs)
  have "getUser (settleBet res rn s b) u \<noteq> None \<longleftrightarrow> getUser s u \<noteq> None"
    by (simp add: getUser_None_iff settleBet_users_dom)
  then show ?case
    using Cons.IH[OF wf_settleBet[OF Cons.prems, of res rn b]]
      settleBet_balance[OF Cons.prems, of res rn b u]
    by simp
qed

lemma completeRound_round_bets:
  assumes wf: "wf_storage s"
  shows "getBetsByRound (snd (completeRound s rnd i)) (gr_id rnd)
           = map (resolved (colors ! i)) (getBetsByRound s (gr_id rnd))"
proof -
  have r: "bet_roundId (resolved (colors ! i) x) = bet_roundId x" for x
    by (simp add: resolved_def)
  have "map snd (bets (snd (completeRound s rnd i)))
          = map (\<lambda>x. if bet_roundId x = gr_id rnd then resolved (colors ! i) x else x)
              (map snd (bets s))"
    unfolding completeRound_bets[OF wf] by (simp add: comp_def case_prod_beta)
  then show ?thesis
    unfolding getBetsByRound_def by (simp add: filter_map comp_def r cong: filter_cong map_cong)
qed

lemma resolved_simps [simp]:
  "bet_status (resolved res x) \<noteq> Pending"
  "bet_id (resolved res x) = bet_id x"
  by (cases "bet_status x"; simp add: resolved_def)+

text \<open>
  C7. After \<open>completeRound\<close> has run on a round, no bet of that round is pending: each
  is won or lost. The bets of the round are the ones it had before. The store is any
  well-formed one, as every store of the engine is.
\<close>

theorem completeRound_no_pending:
  assumes "wf_storage s"
  shows "(\<forall>b \<in> set (getBetsByRound (snd (completeRound s rnd i)) (gr_id rnd)).
            bet_status b \<noteq> Pending \<and> (bet_status b = Won \<or> bet_status b = Lost))
       \<and> map bet_id (getBetsByRound (snd (completeRound s rnd i)) (gr_id rnd))
           = map bet_id (getBetsByRound s (gr_id rnd))"
proof -
  have "bet_status b = Won \<or> bet_status b = Lost" if "bet_status b \<noteq> Pending" for b :: bet
    using that by (cases "bet_status b") auto
  then show ?thesis
    unfolding completeRound_round_bets[OF assms] by (auto simp: comp_def)
qed

lemma getUserBalance_Some: "getUser s k = Some usr \<Longrightarrow> getUserBalance s k = u_balance usr"
  by (simp add: getUserBalance_def)

lemma settleBet_pending_step:
  assumes wf: "wf_storage s" and stored: "(k, b) \<in> set (bets s)" and pend: "bet_status b = Pending"
  shows "(bet_color b = res \<longrightarrow>
            getBet (settleBet res rn s b) (bet_id b)
              = Some (b\<lparr> bet_status := Won, bet_profit := Some (bet_potential b - bet_amount b) \<rparr>)
          \<and> getUserBalance (settleBet res rn s b) (bet_userId b)
              = getUserBalance s (bet_userId b) + bet_potential b
          \<and> transactions (settleBet res rn s b)
              = transactions s @
                [(transactionId s,
                  \<lparr> tx_id = transactionId s, tx_userId = bet_userId b,
                    tx_amount = bet_potential b, tx_type = WinTx, tx_reference = RoundRef rn,
                    tx_balanceBefore = getUserBalance s (bet_userId b),
                    tx_balanceAfter = getUserBalance s (bet_userId b) + bet_potential b \<rparr>)])
       \<and> (bet_color b \<noteq> res \<longrightarrow>
            getBet (settleBet res rn s b) (bet_id b)
              = Some (b\<lparr> bet_status := Lost, bet_profit := Some 0 \<rparr>)
          \<and> users (settleBet res rn s b) = users s
          \<and> transactions (settleBet res rn s b) = transactions s)"
proof -
  have m: "map_of (bets s) (bet_id b) = Some b" and u: "getUser s (bet_userId b) \<noteq> None"
    using wf_bet_stored[OF wf stored] by auto
  then obtain usr where usr: "getUser s (bet_userId b) = Some usr" by auto
  have bal: "getUserBalance s (bet_userId b) = u_balance usr"
    by (rule getUserBalance_Some[OF usr])
  have g: "getBet (settleBet res rn s b) (bet_id b)
             = Some (b\<lparr> bet_status := (if bet_color b = res then Won else Lost),
                  bet_profit := Some (if bet_color b = res then bet_potential b - bet_amount b else 0) \<rparr>)"
    using m u pend by (simp add: getBet_def settleBet_bets_map_of)
  show ?thesis
  proof (cases "bet_color b = res")
    case True
    have "getUserBalance (settleBet res rn s b) (bet_userId b)
              = getUserBalance s (bet_userId b) + bet_potential b"
      using settleBet_balance[OF wf, of res rn b "bet_userId b"] pend True u by simp
    then show ?thesis
      using True g settleBet_won(2)[OF wf pend usr True, of rn] by (simp add: bal win_tx_def)
  next
    case False
    then have "\<not> (bet_status b = Pending \<and> getUser s (bet_userId b) \<noteq> None \<and> bet_color b = res)"
      by simp
    from settleBet_not_won(1,2)[OF this] False g show ?thesis by simp
  qed
qed

lemma getBetsByRound_cong: "bets s' = bets s \<Longrightarrow> getBetsByRound s' rid = getBetsByRound s rid"
  by (simp add: getBetsByRound_def)

lemma completeRound_balance:
  assumes wf: "wf_storage s"
  shows "getUserBalance (snd (completeRound s rnd i)) u =
           getUserBalance s u +
           (\<Sum>x\<leftarrow>getBetsByRound s (gr_id rnd).
              if bet_status x = Pending \<and> bet_color x = colors ! i \<and> bet_userId x = u
              then bet_potential x else 0)"
proof -
  let ?s1 = "snd (updateGameRound s (gr_id rnd) (colors ! i) (multiplierOf (colors ! i)))"
  have wf1: "wf_storage ?s1" by (rule wf_updateGameRound[OF wf])
  have bs: "getBetsByRound ?s1 (gr_id rnd) = getBetsByRound s (gr_id rnd)"
    by (rule getBetsByRound_cong) simp
  have "snd (completeRound s rnd i) =
          foldl (settleBet (colors ! i) (gr_roundNumber rnd)) ?s1 (getBetsByRound s (gr_id rnd))"
    unfolding bs[symmetric] by (simp add: completeRound_def Let_def case_prod_beta)
  then have "getUserBalance (snd (completeRound s rnd i)) u =
           getUserBalance ?s1 u +
           (\<Sum>x\<leftarrow>getBetsByRound s (gr_id rnd).
              if bet_status x = Pending \<and> bet_color x = colors ! i \<and> bet_userId x = u
                 \<and> getUser ?s1 u \<noteq> None
              then bet_potential x else 0)"
    using foldl_settleBet_balance[OF wf1] by simp
  moreover have "getUserBalance ?s1 u = getUserBalance s u"
    by (rule getUserBalance_cong) simp
  moreover have "getUser ?s1 u = getUser s u"
    by (rule getUser_cong) simp
  moreover have "(\<Sum>x\<leftarrow>getBetsByRound s (gr_id rnd).
              if bet_status x = Pending \<and> bet_color x = colors ! i \<and> bet_userId x = u
                 \<and> getUser s u \<noteq> None
              then bet_potential x else 0)
      = (\<Sum>x\<leftarrow>getBetsByRound s (gr_id rnd).
              if bet_status x = Pending \<and> bet_color x = colors ! i \<and> bet_userId x = u
              then bet_potential x else 0)"
  proof (rule arg_cong[where f = sum_list], rule map_cong[OF refl])
    fix x assume "x \<in> set (getBetsByRound s (gr_id rnd))"
    then obtain k where "(k, x) \<in> set (bets s)" by (auto simp: getBetsByRound_def)
    then have "getUser s (bet_userId x) \<noteq> None" by (rule wf_bet_stored(3)[OF wf])
    then show "(if bet_status x = Pending \<and> bet_color x = colors ! i \<and> bet_userId x = u
                 \<and> getUser s u \<noteq> None then bet_potential x else 0)
             = (if bet_status x = Pending \<and> bet_color x = colors ! i \<and> bet_userId x = u
                then bet_potential x else 0)" by auto
  qed
  ultimately show ?thesis by simp
qed

lemma post_bets_tx:
  assumes wf: "wf_storage s" and c: "fst (post_bets s session body now) = Created b"
  shows "\<exists>uid t. session = Some uid
               \<and> transactions (snd (post_bets s session body now))
                   = transactions s @ [(transactionId s, t)]
               \<and> tx_userId t = uid \<and> tx_type t = BetTx \<and> tx_amount t = - br_amount body
               \<and> tx_balanceAfter t = tx_balanceBefore t + tx_amount t
               \<and> tx_balanceBefore t = getUserBalance s uid
               \<and> tx_balanceAfter t = getUserBalance (snd (post_bets s session body now)) uid
               \<and> (\<forall>v. v \<noteq> uid \<longrightarrow> getUser (snd (post_bets s session body now)) v = getUser s v)"
proof -
  let ?s' = "snd (post_bets s session body now)"
  from c obtain uid usr rnd where
    sess: "session = Some uid" and "betSchema_ok body" and usr: "getUser s uid = Some usr" and
    "\<not> u_balance usr < br_amount body" and
    "getGameRound s (br_roundId body) = Some rnd" and "now < gr_endTime rnd" and
    "b = fst (createBet s (bet_insert uid body))" and
    s': "?s' =
     snd (createTransaction
       (snd (updateUser (snd (createBet s (bet_insert uid body))) uid
              (u_balance usr - br_amount body)))
       (bet_tx uid body (u_balance usr) (bet_id b)))"
    by (rule post_bets_CreatedE)
  define t where "t = \<lparr> tx_id = transactionId s, tx_userId = uid, tx_amount = - br_amount body,
              tx_type = BetTx, tx_reference = BetRef (bet_id b),
              tx_balanceBefore = u_balance usr,
              tx_balanceAfter = u_balance usr - br_amount body \<rparr>"
  have m: "map_of (users s) uid = Some usr" using usr by (simp add: getUser_def)
  have tx: "transactions ?s' = transactions s @ [(transactionId s, t)]"
    unfolding s' t_def using m update_fresh[OF wf_tx_fresh[OF wf]]
    by (simp add: createTransaction_def updateUser_def createBet_def Let_def bet_tx_def)
  have us: "users ?s' = AList.update uid (usr\<lparr> u_balance := u_balance usr - br_amount body \<rparr>) (users s)"
    unfolding s' using m
    by (simp add: createTransaction_def updateUser_def createBet_def Let_def)
  have b1: "getUserBalance ?s' uid = u_balance usr - br_amount body"
    by (simp add: getUserBalance_def getUser_def us update_conv')
  have b2: "\<forall>v. v \<noteq> uid \<longrightarrow> getUser ?s' v = getUser s v"
    by (simp add: getUser_def us update_conv')
  have b0: "getUserBalance s uid = u_balance usr" by (rule getUserBalance_Some[OF usr])
  have f: "tx_userId t = uid" "tx_type t = BetTx" "tx_amount t = - br_amount body"
    "tx_balanceBefore t = u_balance usr" "tx_balanceAfter t = u_balance usr - br_amount body"
    by (simp_all add: t_def)
  have "transactions ?s' = transactions s @ [(transactionId s, t)]
               \<and> tx_userId t = uid \<and> tx_type t = BetTx \<and> tx_amount t = - br_amount body
               \<and> tx_balanceAfter t = tx_balanceBefore t + tx_amount t
               \<and> tx_balanceBefore t = getUserBalance s uid
               \<and> tx_balanceAfter t = getUserBalance ?s' uid
               \<and> (\<forall>v. v \<noteq> uid \<longrightarrow> getUser ?s' v = getUser s v)"
    unfolding f b0 b1 using tx b2 by simp
  with sess show ?thesis by blast
qed

lemma settleBet_tx:
  assumes wf: "wf_storage s"
  shows "(users (settleBet res rn s x) = users s
             \<and> transactions (settleBet res rn s x) = transactions s)
          \<or> (\<exists>t. transactions (settleBet res rn s x) = transactions s @ [(transactionId s, t)]
               \<and> tx_userId t = bet_userId x \<and> tx_type t = WinTx \<and> tx_amount t = bet_potential x
               \<and> tx_balanceAfter t = tx_balanceBefore t + tx_amount t
               \<and> tx_balanceBefore t = getUserBalance s (bet_userId x)
               \<and> tx_balanceAfter t = getUserBalance (settleBet res rn s x) (bet_userId x)
               \<and> (\<forall>v. v \<noteq> bet_userId x \<longrightarrow> getUser (settleBet res rn s x) v = getUser s v))"
proof (cases "bet_status x = Pending \<and> getUser s (bet_userId x) \<noteq> None \<and> bet_color x = res")
  case False
  from settleBet_not_won(1,2)[OF this] show ?thesis by (intro disjI1 conjI)
next
  case True
  then obtain usr where usr: "getUser s (bet_userId x) = Some usr" by auto
  let ?s' = "settleBet res rn s x"
  define t where "t = win_tx (transactionId s) x (u_balance usr) rn"
  have tx: "transactions ?s' = transactions s @ [(transactionId s, t)]"
    unfolding t_def using settleBet_won(2)[OF wf _ usr] True by simp
  have us: "users ?s' =
         AList.update (bet_userId x) (usr\<lparr> u_balance := u_balance usr + bet_potential x \<rparr>) (users s)"
    using settleBet_won(1)[OF wf _ usr] True by simp
  have b1: "getUserBalance ?s' (bet_userId x) = u_balance usr + bet_potential x"
    by (simp add: getUserBalance_def getUser_def us update_conv')
  have b2: "\<forall>v. v \<noteq> bet_userId x \<longrightarrow> getUser ?s' v = getUser s v"
    by (simp add: getUser_def us update_conv')
  have b0: "getUserBalance s (bet_userId x) = u_balance usr" by (rule getUserBalance_Some[OF usr])
  have f: "tx_userId t = bet_userId x" "tx_type t = WinTx" "tx_amount t = bet_potential x"
    "tx_balanceBefore t = u_balance usr" "tx_balanceAfter t = u_balance usr + bet_potential x"
    by (simp_all add: t_def win_tx_def)
  have "transactions ?s' = transactions s @ [(transactionId s, t)]
               \<and> tx_userId t = bet_userId x \<and> tx_type t = WinTx \<and> tx_amount t = bet_potential x
               \<and> tx_balanceAfter t = tx_balanceBefore t + tx_amount t
               \<and> tx_balanceBefore t = getUserBalance s (bet_userId x)
               \<and> tx_balanceAfter t = getUserBalance ?s' (bet_userId x)
               \<and> (\<forall>v. v \<noteq> bet_userId x \<longrightarrow> getUser ?s' v = getUser s v)"
    unfolding f b0 b1 using tx b2 by simp
  then show ?thesis by blast
qed

lemma scenario_start_eq:
  "scenario_start = \<lparr> users = [(1, admin_user), (2, demo_user)], gameRounds = [(1, round_1)],
      bets = [], transactions = [], userId = 3, roundId = 2, betId = 1, transactionId = 1,
      roundNumber = 2 \<rparr>"
  by (simp add: scenario_start_def createNewRound_def createDemoAccounts_def newMemStorage_def
      emptyStorage_def createUser_def getUserByUsername_def getActiveGameRound_def
      createGameRound_def ROUND_DURATION_MS_def Let_def admin_user_def demo_user_def round_1_def)

lemma post_violet:
  "post_bets scenario_start (Some 2) violet_50 1000 =
     (Created violet_bet,
      \<lparr> users = [(1, admin_user), (2, demo_user\<lparr> u_balance := 950 \<rparr>)],
        gameRounds = [(1, round_1)], bets = [(1, violet_bet)],
        transactions = [(1, \<lparr> tx_id = 1, tx_userId = 2, tx_amount = - 50, tx_type = BetTx,
           tx_reference = BetRef 1, tx_balanceBefore = 1000, tx_balanceAfter = 950 \<rparr>)],
        userId = 3, roundId = 2, betId = 2, transactionId = 2, roundNumber = 2 \<rparr>)"
  by (simp add: scenario_start_eq post_bets_def violet_50_def betSchema_ok_def colors_def
      getUser_def getGameRound_def multiplierOf_def createBet_def updateUser_def
      createTransaction_def Let_def admin_user_def demo_user_def round_1_def violet_bet_def)

lemma post_red:
  "post_bets scenario_start (Some 2) red_100 1000 =
     (Created red_bet,
      \<lparr> users = [(1, admin_user), (2, demo_user\<lparr> u_balance := 900 \<rparr>)],
        gameRounds = [(1, round_1)], bets = [(1, red_bet)],
        transactions = [(1, \<lparr> tx_id = 1, tx_userId = 2, tx_amount = - 100, tx_type = BetTx,
           tx_reference = BetRef 1, tx_balanceBefore = 1000, tx_balanceAfter = 900 \<rparr>)],
        userId = 3, roundId = 2, betId = 2, transactionId = 2, roundNumber = 2 \<rparr>)"
  by (simp add: scenario_start_eq post_bets_def red_100_def betSchema_ok_def colors_def
      getUser_def getGameRound_def multiplierOf_def createBet_def updateUser_def
      createTransaction_def Let_def admin_user_def demo_user_def round_1_def red_bet_def)

section \<open>The round cycle\<close>

lemma update_eq_map:
  "distinct (map fst al) \<Longrightarrow> k \<in> fst ` set al \<Longrightarrow>
     AList.update k v al = map (\<lambda>p. if fst p = k then (k, v) else p) al"
  by (induction al) (auto simp: rev_image_eqI intro!: map_idI[symmetric])

lemma rounds_updateGameRound:
  assumes wf: "wf_storage s"
  shows "rounds (snd (updateGameRound s i res m)) =
           map (\<lambda>r. if gr_id r = i then r\<lparr> gr_result := res, gr_multiplier := m \<rparr> else r)
             (rounds s)"
proof (cases "map_of (gameRounds s) i")
  case None
  then have "i \<notin> fst ` set (gameRounds s)" by (simp add: map_of_eq_None_iff)
  moreover have "\<forall>(k, r) \<in> set (gameRounds s). gr_id r = k" using wf by (auto simp: wf_storage_def)
  ultimately have "\<forall>r \<in> set (rounds s). gr_id r \<noteq> i" by (force simp: rounds_def)
  then have "map (\<lambda>r. if gr_id r = i then r\<lparr> gr_result := res, gr_multiplier := m \<rparr> else r)
             (rounds s) = rounds s" by (intro map_idI) auto
  then show ?thesis using None by (simp add: updateGameRound_def rounds_def)
next
  case (Some r0)
  have d: "distinct (map fst (gameRounds s))" using wf by (simp add: wf_storage_def)
  have ids: "\<forall>(k, r) \<in> set (gameRounds s). gr_id r = k" using wf by (auto simp: wf_storage_def)
  have k: "i \<in> fst ` set (gameRounds s)" using Some by (auto dest!: map_of_SomeD intro: rev_image_eqI)
  have "map (\<lambda>p. snd (if fst p = i then (i, r0\<lparr> gr_result := res, gr_multiplier := m \<rparr>) else p))
           (gameRounds s)
        = map (\<lambda>p. if gr_id (snd p) = i then (snd p)\<lparr> gr_result := res, gr_multiplier := m \<rparr>
                     else snd p) (gameRounds s)"
  proof (rule map_cong[OF refl])
    fix p assume p: "p \<in> set (gameRounds s)"
    then have g: "gr_id (snd p) = fst p" using ids by auto
    show "snd (if fst p = i then (i, r0\<lparr> gr_result := res, gr_multiplier := m \<rparr>) else p)
        = (if gr_id (snd p) = i then (snd p)\<lparr> gr_result := res, gr_multiplier := m \<rparr> else snd p)"
    proof (cases "fst p = i")
      case True
      then have "map_of (gameRounds s) i = Some (snd p)" using d p by (cases p) auto
      then show ?thesis using Some True g by simp
    next
      case False
      then show ?thesis using g by simp
    qed
  qed
  then have "map snd (map (\<lambda>p. if fst p = i then (i, r0\<lparr> gr_result := res, gr_multiplier := m \<rparr>) else p)
           (gameRounds s))
        = map (\<lambda>r. if gr_id r = i then r\<lparr> gr_result := res, gr_multiplier := m \<rparr> else r)
            (map snd (gameRounds s))"
    by (simp add: comp_def)
  then show ?thesis
    using Some by (simp add: updateGameRound_def rounds_def Let_def update_eq_map[OF d k])
qed

lemma rounds_settleBet [simp]: "rounds (settleBet res rn s b) = rounds s"
  by (simp add: rounds_def settleBet_frame)

lemma rounds_foldl_settleBet [simp]: "rounds (foldl (settleBet res rn) s bs) = rounds s"
  by (induction bs arbitrary: s) simp_all

lemma rounds_completeRound:
  assumes "wf_storage s"
  shows "rounds (snd (completeRound s rnd i)) =
           map (\<lambda>r. if gr_id r = gr_id rnd
                     then r\<lparr> gr_result := colors ! i, gr_multiplier := multiplierOf (colors ! i) \<rparr>
                     else r) (rounds s)"
  by (simp add: completeRound_def Let_def case_prod_beta rounds_updateGameRound[OF assms])

lemma rounds_createGameRound:
  assumes "wf_storage s"
  shows "rounds (snd (createGameRound s ir)) = rounds s @ [fst (createGameRound s ir)]"
proof -
  have "roundId s \<notin> fst ` set (gameRounds s)" using assms by (auto simp: wf_storage_def)
  then show ?thesis by (simp add: createGameRound_def Let_def rounds_def update_fresh)
qed

lemma rounds_post_bets [simp]: "rounds (snd (post_bets s session body now)) = rounds s"
  unfolding post_bets_def Let_def case_prod_beta rounds_def
  by (simp add: createBet_def updateUser_def createTransaction_def Let_def split: option.splits)

lemma rounds_createUser [simp]: "rounds (snd (createUser s iu)) = rounds s"
  by (simp add: createUser_def Let_def rounds_def)

lemma rounds_force_round:
  assumes "wf_storage s"
  shows "rounds (snd (force_round s rid res mult)) = rounds s
       \<or> (res \<noteq> [] \<and> rounds (snd (force_round s rid res mult)) =
            map (\<lambda>r. if gr_id r = rid then r\<lparr> gr_result := res, gr_multiplier := mult \<rparr> else r)
              (rounds s))"
  by (auto simp: force_round_def Let_def case_prod_beta rounds_updateGameRound[OF assms]
      split: option.splits)

lemma colors_nonempty: "i < length colors \<Longrightarrow> colors ! i \<noteq> []"
  by (auto simp: colors_def less_Suc_eq numeral_3_eq_3)

lemma rounds_inv_map:
  assumes "rounds_inv rs c n" and "c \<le> c'"
    and "\<And>r. gr_startTime (f r) = gr_startTime r \<and> gr_endTime (f r) = gr_endTime r
              \<and> (gr_result r \<noteq> [] \<longrightarrow> gr_result (f r) \<noteq> [])"
  shows "rounds_inv (map f rs) c' n"
proof (cases "rev rs")
  case Nil
  then show ?thesis by (simp add: rounds_inv_def)
next
  case (Cons l older)
  then have "rev (map f rs) = f l # map f older" by (simp add: rev_map)
  moreover have "gr_startTime l \<le> c" "gr_endTime l < n + ROUND_DURATION_MS"
    "\<forall>r \<in> set older. gr_endTime r < n \<and> (gr_result r \<noteq> [] \<or> gr_endTime r \<le> c)"
    using assms(1) Cons by (simp_all add: rounds_inv_def)
  ultimately show ?thesis
    using assms(2,3) by (fastforce simp add: rounds_inv_def)
qed

lemma rounds_inv_clock: "rounds_inv rs c n \<Longrightarrow> c \<le> c' \<Longrightarrow> rounds_inv rs c' n"
  using rounds_inv_map[of rs c n c' id] by simp

lemma rounds_inv_open:
  assumes "rounds_inv rs c n"
  shows "length (filter (round_open c) rs) \<le> 1"
proof (cases "rev rs")
  case Nil
  then show ?thesis by simp
next
  case (Cons l older)
  then have rs: "rs = rev older @ [l]" by (metis rev.simps(2) rev_rev_ident)
  have "\<forall>r \<in> set older. \<not> round_open c r"
    using assms Cons by (auto simp: rounds_inv_def round_open_def)
  then have "filter (round_open c) (rev older) = []" by (simp add: filter_empty_conv)
  then show ?thesis unfolding rs by simp
qed

lemma find_snoc:
  "\<forall>x \<in> set xs. \<not> P x \<Longrightarrow> find P (xs @ [y]) = (if P y then Some y else None)"
  by (induction xs) auto

lemma tick_rounds:
  assumes wf: "wf_storage s" and inv: "rounds_inv (rounds s) c n"
    and t: "c \<le> t0" "n \<le> t0" "t0 \<le> t1" "t1 \<le> t2" and i: "i < length colors"
  defines "s1 \<equiv> (case getActiveGameRound s t1 of
                    None \<Rightarrow> s
                  | Some activeRound \<Rightarrow> snd (completeRound s activeRound i))"
  shows "\<forall>r \<in> set (rounds s1).
           gr_endTime r < t0 + ROUND_DURATION_MS \<and> (gr_result r \<noteq> [] \<or> gr_endTime r \<le> t2)"
proof (cases "rev (rounds s)")
  case Nil
  then have "rounds s = []" by simp
  then have "rounds s1 = []" by (simp add: s1_def getActiveGameRound_def rounds_def)
  then show ?thesis by simp
next
  case (Cons l older)
  let ?P = "\<lambda>r. gr_startTime r \<le> t1 \<and> gr_endTime r \<ge> t1"
  have rs: "rounds s = rev older @ [l]" using Cons by (metis rev.simps(2) rev_rev_ident)
  have l: "gr_startTime l \<le> c" "gr_endTime l < n + ROUND_DURATION_MS"
    and old: "\<forall>r \<in> set older. gr_endTime r < n \<and> (gr_result r \<noteq> [] \<or> gr_endTime r \<le> c)"
    using inv Cons by (simp_all add: rounds_inv_def)
  have D: "0 < ROUND_DURATION_MS" by (simp add: ROUND_DURATION_MS_def)
  have "\<forall>r \<in> set (rev older). \<not> ?P r" using old t by auto
  then have act: "getActiveGameRound s t1 = (if ?P l then Some l else None)"
    unfolding getActiveGameRound_def rounds_def[symmetric] rs by (rule find_snoc)
  show ?thesis
  proof (cases "?P l")
    case True
    let ?f = "\<lambda>r. if gr_id r = gr_id l
                 then r\<lparr> gr_result := colors ! i, gr_multiplier := multiplierOf (colors ! i) \<rparr>
                 else r"
    have r1: "rounds s1 = map ?f (rounds s)"
      using act True by (simp add: s1_def rounds_completeRound[OF wf])
    show ?thesis
    proof
      fix r' assume "r' \<in> set (rounds s1)"
      then obtain r where r: "r \<in> set (rounds s)" "r' = ?f r" unfolding r1 by auto
      then consider "r = l" | "r \<in> set older" unfolding rs by auto
      then show "gr_endTime r' < t0 + ROUND_DURATION_MS \<and> (gr_result r' \<noteq> [] \<or> gr_endTime r' \<le> t2)"
      proof cases
        case 1
        then show ?thesis using r(2) l t colors_nonempty[OF i] by simp
      next
        case 2
        then have "gr_endTime r < n" "gr_result r \<noteq> [] \<or> gr_endTime r \<le> c" using old by auto
        then show ?thesis using r(2) t D colors_nonempty[OF i] by auto
      qed
    qed
  next
    case False
    then have "getActiveGameRound s t1 = None" using act by auto
    then have r1: "rounds s1 = rounds s" by (simp add: s1_def)
    have "gr_endTime l < t1" using False l t by auto
    then show ?thesis unfolding r1 rs using l old t D by auto
  qed
qed

lemma tick_inv:
  assumes wf: "wf_storage s" and inv: "rounds_inv (rounds s) c n"
    and t: "c \<le> t0" "n \<le> t0" "t0 \<le> t1" "t1 \<le> t2" "t2 < t0 + ROUND_DURATION_MS"
    and i: "i < length colors"
  shows "rounds_inv (rounds (snd (createNewRound s t1 t2 i))) t2 (t0 + ROUND_DURATION_MS)"
proof -
  define s1 where "s1 = (case getActiveGameRound s t1 of
                    None \<Rightarrow> s
                  | Some activeRound \<Rightarrow> snd (completeRound s activeRound i))"
  define ir where "ir = \<lparr> igr_roundNumber = 0, igr_startTime = t2,
             igr_endTime = t2 + ROUND_DURATION_MS, igr_result = [], igr_multiplier = 0 \<rparr>"
  have wf1: "wf_storage s1"
    unfolding s1_def using wf by (auto split: option.splits intro: wf_completeRound)
  have A: "\<forall>r \<in> set (rounds s1).
           gr_endTime r < t0 + ROUND_DURATION_MS \<and> (gr_result r \<noteq> [] \<or> gr_endTime r \<le> t2)"
    unfolding s1_def by (rule tick_rounds[OF wf inv t(1-4) i])
  have c: "createNewRound s t1 t2 i = createGameRound s1 ir"
    by (simp add: createNewRound_def s1_def ir_def Let_def)
  have new: "gr_startTime (fst (createGameRound s1 ir)) = t2"
    "gr_endTime (fst (createGameRound s1 ir)) = t2 + ROUND_DURATION_MS"
    by (simp_all add: createGameRound_def Let_def ir_def)
  show ?thesis
    unfolding c rounds_createGameRound[OF wf1] rounds_inv_def
    using A new t by simp
qed

lemma wf_newMemStorage: "wf_storage (newMemStorage h0)"
  unfolding newMemStorage_def by (rule wf_createUser[OF wf_emptyStorage])

lemma wf_createDemoAccounts: "wf_storage s \<Longrightarrow> wf_storage (createDemoAccounts s h)"
  unfolding createDemoAccounts_def Let_def
  by (auto split: option.splits intro!: wf_createUser)

lemma rounds_startup [simp]: "rounds (createDemoAccounts (newMemStorage h0) h) = []"
  unfolding createDemoAccounts_def Let_def newMemStorage_def
  by (simp add: emptyStorage_def createUser_def Let_def rounds_def split: option.splits)

lemma start_inv:
  assumes "t1 \<le> t2" "t2 \<le> t3"
  shows "rounds_inv (rounds (snd (createNewRound (createDemoAccounts (newMemStorage h0) h) t1 t2 i)))
           t3 (t3 + ROUND_DURATION_MS)"
proof -
  let ?s0 = "createDemoAccounts (newMemStorage h0) h"
  define ir where "ir = \<lparr> igr_roundNumber = 0, igr_startTime = t2,
             igr_endTime = t2 + ROUND_DURATION_MS, igr_result = [], igr_multiplier = 0 \<rparr>"
  have wf0: "wf_storage ?s0" by (rule wf_createDemoAccounts[OF wf_newMemStorage])
  have "getActiveGameRound ?s0 t1 = None"
    using rounds_startup[of h0 h] by (simp add: getActiveGameRound_def rounds_def)
  then have c: "createNewRound ?s0 t1 t2 i = createGameRound ?s0 ir"
    by (simp add: createNewRound_def ir_def Let_def)
  have new: "gr_startTime (fst (createGameRound ?s0 ir)) = t2"
    "gr_endTime (fst (createGameRound ?s0 ir)) = t2 + ROUND_DURATION_MS"
    by (simp_all add: createGameRound_def Let_def ir_def)
  show ?thesis
    unfolding c rounds_createGameRound[OF wf0] rounds_inv_def
    using new assms by (simp add: ROUND_DURATION_MS_def)
qed

lemma reachable_inv:
  "reachable e \<Longrightarrow>
     wf_storage (store e) \<and> rounds_inv (rounds (store e)) (clock e) (nextTick e)"
proof (induction rule: reachable.induct)
  case (start t1 t2 t3 h0 h i)
  then show ?case
    by (simp add: start_inv wf_createNewRound wf_createDemoAccounts wf_newMemStorage)
next
  case (tick e t0 t1 t2 i)
  then have "wf_storage (store e)" "rounds_inv (rounds (store e)) (clock e) (nextTick e)"
    by simp_all
  from tick_inv[OF this tick.hyps(2-7)] this(1) show ?case
    by (simp add: wf_createNewRound)
next
  case (timeout e k rnd t i)
  then have wf: "wf_storage (store e)" by simp
  have "rounds_inv (map (\<lambda>r. if gr_id r = gr_id rnd
                     then r\<lparr> gr_result := colors ! i, gr_multiplier := multiplierOf (colors ! i) \<rparr>
                     else r) (rounds (store e))) t (nextTick e)"
    using timeout colors_nonempty[of i] by (intro rounds_inv_map[where c = "clock e"]) auto
  then show ?case using wf by (simp add: wf_completeRound rounds_completeRound)
next
  case (bet e t session body)
  then show ?case by (simp add: wf_post_bets rounds_inv_clock[where c = "clock e"])
next
  case (force e t rid res mult)
  then have wf: "wf_storage (store e)" by simp
  from rounds_force_round[OF wf, of rid res mult]
  have "rounds_inv (rounds (snd (force_round (store e) rid res mult))) t (nextTick e)"
  proof
    assume "rounds (snd (force_round (store e) rid res mult)) = rounds (store e)"
    then show ?thesis using force by (simp add: rounds_inv_clock[where c = "clock e"])
  next
    assume a: "res \<noteq> [] \<and> rounds (snd (force_round (store e) rid res mult)) =
            map (\<lambda>r. if gr_id r = rid then r\<lparr> gr_result := res, gr_multiplier := mult \<rparr> else r)
              (rounds (store e))"
    have "rounds_inv (map (\<lambda>r. if gr_id r = rid then r\<lparr> gr_result := res, gr_multiplier := mult \<rparr> else r)
              (rounds (store e))) t (nextTick e)"
      using force a by (intro rounds_inv_map[where c = "clock e"]) auto
    then show ?thesis using a by simp
  qed
  then show ?case using wf by (simp add: wf_force_round)
next
  case (register e t insertUser)
  then show ?case by (simp add: wf_createUser rounds_inv_clock[where c = "clock e"])
next
  case (wait e t)
  then show ?case by (simp add: rounds_inv_clock[where c = "clock e"])
qed

lemma reachable_wf: "reachable e \<Longrightarrow> wf_storage (store e)"
  by (simp add: reachable_inv)

text \<open>
  C8. In every state the engine reaches, at most one round is open: at most one round has
  an undecided outcome and an end time after the clock.
\<close>

theorem at_most_one_open_round:
  assumes "reachable e"
  shows "length (open_rounds e) \<le> 1"
  using rounds_inv_open[of "rounds (store e)" "clock e" "nextTick e"] reachable_inv[OF assms]
  by (simp add: open_rounds_def rounds_def)

section \<open>Transactions, intake order and settlement\<close>

text \<open>
  C9. A bet that is accepted appends exactly one transaction, of type bet, whose amount is
  the negated stake, whose \<open>balanceBefore\<close> is the balance of the user before the request,
  whose \<open>balanceAfter\<close> is the balance after it, and
  \<open>balanceAfter = balanceBefore + amount\<close>; no other user changes. One step of the
  settlement loop either leaves users and transactions as they are, or appends exactly one
  transaction, of type win, with the same three properties for the owner of the bet.
\<close>

theorem transaction_snapshots:
  assumes wf: "wf_storage s"
  shows "(fst (post_bets s session body now) = Created b \<longrightarrow>
            (\<exists>uid t. session = Some uid
               \<and> transactions (snd (post_bets s session body now))
                   = transactions s @ [(transactionId s, t)]
               \<and> tx_userId t = uid \<and> tx_type t = BetTx \<and> tx_amount t = - br_amount body
               \<and> tx_balanceAfter t = tx_balanceBefore t + tx_amount t
               \<and> tx_balanceBefore t = getUserBalance s uid
               \<and> tx_balanceAfter t = getUserBalance (snd (post_bets s session body now)) uid
               \<and> (\<forall>v. v \<noteq> uid \<longrightarrow> getUser (snd (post_bets s session body now)) v = getUser s v)))
       \<and> ((users (settleBet res rn s x) = users s
             \<and> transactions (settleBet res rn s x) = transactions s)
          \<or> (\<exists>t. transactions (settleBet res rn s x) = transactions s @ [(transactionId s, t)]
               \<and> tx_userId t = bet_userId x \<and> tx_type t = WinTx \<and> tx_amount t = bet_potential x
               \<and> tx_balanceAfter t = tx_balanceBefore t + tx_amount t
               \<and> tx_balanceBefore t = getUserBalance s (bet_userId x)
               \<and> tx_balanceAfter t = getUserBalance (settleBet res rn s x) (bet_userId x)
               \<and> (\<forall>v. v \<noteq> bet_userId x \<longrightarrow> getUser (settleBet res rn s x) v = getUser s v)))"
  using post_bets_tx[OF wf, of session body now b] settleBet_tx[OF wf, of res rn x]
  by (intro conjI impI)

lemma foldl_settleBet_nonpending:
  "\<forall>b \<in> set bs. bet_status b \<noteq> Pending \<Longrightarrow> foldl (settleBet res rn) s bs = s"
  by (induction bs arbitrary: s) (simp_all add: settleBet_def)

lemma completeRound_again:
  assumes wf: "wf_storage s"
  shows "snd (completeRound (snd (completeRound s rnd i)) rnd j) =
           snd (updateGameRound (snd (completeRound s rnd i)) (gr_id rnd) (colors ! j)
                  (multiplierOf (colors ! j)))"
proof -
  let ?s' = "snd (completeRound s rnd i)"
  let ?s1 = "snd (updateGameRound ?s' (gr_id rnd) (colors ! j) (multiplierOf (colors ! j)))"
  have "getBetsByRound ?s1 (gr_id rnd) = getBetsByRound ?s' (gr_id rnd)"
    by (rule getBetsByRound_cong) simp
  then have "\<forall>b \<in> set (getBetsByRound ?s1 (gr_id rnd)). bet_status b \<noteq> Pending"
    by (simp add: completeRound_round_bets[OF wf])
  then have "foldl (settleBet (colors ! j) (gr_roundNumber rnd)) ?s1 (getBetsByRound ?s1 (gr_id rnd))
               = ?s1"
    by (rule foldl_settleBet_nonpending)
  then show ?thesis by (simp add: completeRound_def[of ?s'] Let_def case_prod_beta)
qed

lemma completeRound_stored_bet:
  assumes wf: "wf_storage s" and stored: "(k, b) \<in> set (bets s)"
    and r: "bet_roundId b = gr_id rnd"
  shows "getBet (snd (completeRound s rnd i)) (bet_id b) = Some (resolved (colors ! i) b)"
proof -
  have "map_of (bets s) (bet_id b) = Some b" by (rule wf_bet_stored(1)[OF wf stored])
  then show ?thesis
    unfolding getBet_def completeRound_bets[OF wf] using r by (simp add: map_of_map)
qed

text \<open>
  C1. For a pending wager \<open>b\<close> of a well-formed store, one step of the settlement loop
  with drawn colour \<open>res\<close> does this. If the colour of the wager is \<open>res\<close>: the status
  becomes won, the profit is potential minus stake, the balance of the owner grows by the
  potential, and one win transaction is appended whose snapshot is the balance before and
  after. Otherwise: the status becomes lost, the profit is 0, users and transactions stay.
  For the whole of \<open>completeRound\<close>: a pending wager of the round ends with that status
  and profit, and the balance of a user grows by the potentials of the pending wagers of
  the round that the user owns and that carry the drawn colour.
\<close>

theorem settlement_resolves_pending_wager:
  assumes wf: "wf_storage s" and stored: "(k, b) \<in> set (bets s)" and pend: "bet_status b = Pending"
  shows "(bet_color b = res \<longrightarrow>
            getBet (settleBet res rn s b) (bet_id b)
              = Some (b\<lparr> bet_status := Won, bet_profit := Some (bet_potential b - bet_amount b) \<rparr>)
          \<and> getUserBalance (settleBet res rn s b) (bet_userId b)
              = getUserBalance s (bet_userId b) + bet_potential b
          \<and> transactions (settleBet res rn s b)
              = transactions s @
                [(transactionId s,
                  \<lparr> tx_id = transactionId s, tx_userId = bet_userId b,
                    tx_amount = bet_potential b, tx_type = WinTx, tx_reference = RoundRef rn,
                    tx_balanceBefore = getUserBalance s (bet_userId b),
                    tx_balanceAfter = getUserBalance s (bet_userId b) + bet_potential b \<rparr>)])
       \<and> (bet_color b \<noteq> res \<longrightarrow>
            getBet (settleBet res rn s b) (bet_id b)
              = Some (b\<lparr> bet_status := Lost, bet_profit := Some 0 \<rparr>)
          \<and> users (settleBet res rn s b) = users s
          \<and> transactions (settleBet res rn s b) = transactions s)
       \<and> (bet_roundId b = gr_id rnd \<longrightarrow>
            getBet (snd (completeRound s rnd i)) (bet_id b)
              = Some (b\<lparr> bet_status := (if bet_color b = colors ! i then Won else Lost),
                       bet_profit := Some (if bet_color b = colors ! i
                                           then bet_potential b - bet_amount b else 0) \<rparr>))
       \<and> getUserBalance (snd (completeRound s rnd i)) u =
           getUserBalance s u +
           (\<Sum>x\<leftarrow>getBetsByRound s (gr_id rnd).
              if bet_status x = Pending \<and> bet_color x = colors ! i \<and> bet_userId x = u
              then bet_potential x else 0)"
  using settleBet_pending_step[OF wf stored pend, of res rn]
    completeRound_stored_bet[OF wf stored, of rnd i] completeRound_balance[OF wf, of rnd i u] pend
  by (simp add: resolved_def)

lemma scenario_forced_eq:
  "scenario_forced = \<lparr> users = [(1, admin_user), (2, demo_user)],
      gameRounds = [(1, round_1\<lparr> gr_result := ''green'', gr_multiplier := 2 \<rparr>)],
      bets = [], transactions = [], userId = 3, roundId = 2, betId = 1, transactionId = 1,
      roundNumber = 2 \<rparr>"
  by (simp add: scenario_forced_def scenario_start_eq force_round_def getGameRound_def
      updateGameRound_def Let_def)

text \<open>
  The order of the specification is not the order of the route. A stake over the balance on
  a round that does not exist is rejected for the balance, where the specification names
  the missing round first; and a bet on a round whose result is already set, placed before
  its end time, is accepted, where the specification rejects it as not open.
\<close>

theorem intake_order_counterexample:
  "spec_first_rejection scenario_start 2 red_5000_round_7 1000 = Some RoundNotFound
   \<and> fst (post_bets scenario_start (Some 2) red_5000_round_7 1000) = Rejected InsufficientBalance
   \<and> spec_first_rejection scenario_forced 2 violet_50 1000 = Some BettingEnded
   \<and> fst (post_bets scenario_forced (Some 2) violet_50 1000) = Created violet_bet"
  by (simp add: spec_first_rejection_def scenario_start_eq scenario_forced_eq post_bets_def
      red_5000_round_7_def violet_50_def betSchema_ok_def colors_def getUser_def
      getGameRound_def demo_user_def round_1_def multiplierOf_def createBet_def Let_def
      violet_bet_def)

text \<open>
  C4, as the route has it. The checks run in this order, each with a rejection of its
  own: the session carries a user id; the body passes the schema (a colour of the three,
  a positive amount); the user exists; the balance is at least the stake; the round
  exists; the time is before the end time of the round. A request that passes them all is
  accepted.
\<close>

theorem intake_check_order:
  "(session = None \<longrightarrow> fst (post_bets s session body now) = Rejected NotAuthenticated)
   \<and> (session = Some uid \<longrightarrow>
        (\<not> betSchema_ok body \<longrightarrow> fst (post_bets s session body now) = Rejected InvalidInput)
      \<and> (betSchema_ok body \<and> getUser s uid = None \<longrightarrow>
            fst (post_bets s session body now) = Rejected UserNotFound)
      \<and> (betSchema_ok body \<and> getUser s uid = Some usr \<and> u_balance usr < br_amount body \<longrightarrow>
            fst (post_bets s session body now) = Rejected InsufficientBalance)
      \<and> (betSchema_ok body \<and> getUser s uid = Some usr \<and> br_amount body \<le> u_balance usr
            \<and> getGameRound s (br_roundId body) = None \<longrightarrow>
            fst (post_bets s session body now) = Rejected RoundNotFound)
      \<and> (betSchema_ok body \<and> getUser s uid = Some usr \<and> br_amount body \<le> u_balance usr
            \<and> getGameRound s (br_roundId body) = Some rnd \<and> gr_endTime rnd \<le> now \<longrightarrow>
            fst (post_bets s session body now) = Rejected BettingEnded)
      \<and> (betSchema_ok body \<and> getUser s uid = Some usr \<and> br_amount body \<le> u_balance usr
            \<and> getGameRound s (br_roundId body) = Some rnd \<and> now < gr_endTime rnd \<longrightarrow>
            (\<exists>b. fst (post_bets s session body now) = Created b)))"
  unfolding post_bets_def Let_def case_prod_beta
  by (auto split: option.splits)

theorem intake_check_order_witness:
  "betSchema_ok red_5000_round_7 \<and> getUser scenario_start 2 = Some demo_user
   \<and> u_balance demo_user < br_amount red_5000_round_7
   \<and> fst (post_bets scenario_start (Some 2) red_5000_round_7 1000) = Rejected InsufficientBalance
   \<and> \<not> betSchema_ok (red_5000_round_7\<lparr> br_amount := 0 \<rparr>)
   \<and> fst (post_bets scenario_start (Some 2) (red_5000_round_7\<lparr> br_amount := 0 \<rparr>) 1000)
       = Rejected InvalidInput"
proof -
  have h: "betSchema_ok red_5000_round_7" "getUser scenario_start 2 = Some demo_user"
    "u_balance demo_user < br_amount red_5000_round_7"
    "\<not> betSchema_ok (red_5000_round_7\<lparr> br_amount := 0 \<rparr>)"
    by (simp_all add: betSchema_ok_def red_5000_round_7_def colors_def scenario_start_eq
        getUser_def demo_user_def)
  show ?thesis
    using h intake_check_order[of "Some 2" scenario_start red_5000_round_7 1000 2 demo_user]
      intake_check_order[of "Some 2" scenario_start "red_5000_round_7\<lparr> br_amount := 0 \<rparr>" 1000 2]
    by simp
qed

lemma scenario_violet_eq:
  "scenario_violet =
      \<lparr> users = [(1, admin_user), (2, demo_user\<lparr> u_balance := 950 \<rparr>)],
        gameRounds = [(1, round_1)], bets = [(1, violet_bet)],
        transactions = [(1, bet_tx_50)],
        userId = 3, roundId = 2, betId = 2, transactionId = 2, roundNumber = 2 \<rparr>"
  by (simp add: scenario_violet_def post_violet bet_tx_50_def)

lemma colors_nth: "colors ! 0 = ''red''" "colors ! 1 = ''green''" "colors ! 2 = ''violet''"
  by (simp_all add: colors_def)

lemma settle_violet_won:
  "snd (completeRound scenario_violet round_1 2) =
      \<lparr> users = [(1, admin_user), (2, demo_user\<lparr> u_balance := 1150 \<rparr>)],
        gameRounds = [(1, round_1\<lparr> gr_result := ''violet'', gr_multiplier := 4 \<rparr>)],
        bets = [(1, violet_bet\<lparr> bet_status := Won, bet_profit := Some 150 \<rparr>)],
        transactions = [(1, bet_tx_50), (2, win_tx_200)],
        userId = 3, roundId = 2, betId = 2, transactionId = 3, roundNumber = 2 \<rparr>"
  by (simp add: scenario_violet_eq completeRound_def colors_nth multiplierOf_def
      updateGameRound_def getBetsByRound_def settleBet_def getUser_def updateUser_def
      createTransaction_def updateBet_def Let_def round_1_def violet_bet_def demo_user_def
      win_tx_200_def)

lemma settle_violet_lost:
  "snd (completeRound scenario_violet round_1 0) =
      \<lparr> users = [(1, admin_user), (2, demo_user\<lparr> u_balance := 950 \<rparr>)],
        gameRounds = [(1, round_1\<lparr> gr_result := ''red'', gr_multiplier := 2 \<rparr>)],
        bets = [(1, violet_bet\<lparr> bet_status := Lost, bet_profit := Some 0 \<rparr>)],
        transactions = [(1, bet_tx_50)],
        userId = 3, roundId = 2, betId = 2, transactionId = 2, roundNumber = 2 \<rparr>"
  by (simp add: scenario_violet_eq completeRound_def colors_nth multiplierOf_def
      updateGameRound_def getBetsByRound_def settleBet_def getUser_def updateUser_def
      createTransaction_def updateBet_def Let_def round_1_def violet_bet_def demo_user_def)

lemma completeRound_again_ledger:
  assumes "wf_storage s"
  shows "bets (snd (completeRound (snd (completeRound s rnd i)) rnd j))
           = bets (snd (completeRound s rnd i))"
    and "users (snd (completeRound (snd (completeRound s rnd i)) rnd j))
           = users (snd (completeRound s rnd i))"
    and "transactions (snd (completeRound (snd (completeRound s rnd i)) rnd j))
           = transactions (snd (completeRound s rnd i))"
  unfolding completeRound_again[OF assms] by simp_all

text \<open>
  C2. The violet bet of the scenario is settled with the draw violet and then once more
  with the draw red. The bet stays won, but the stored result of the round is now red with
  multiplier 2: the store after the second run differs from the store after the first.
\<close>

theorem second_settlement_redraws:
  "map_option gr_result
     (getGameRound (snd (completeRound scenario_violet round_1 2)) 1) = Some ''violet''
   \<and> map_option gr_result
       (getGameRound (snd (completeRound (snd (completeRound scenario_violet round_1 2)) round_1 0)) 1)
       = Some ''red''
   \<and> map_option gr_multiplier
       (getGameRound (snd (completeRound (snd (completeRound scenario_violet round_1 2)) round_1 0)) 1)
       = Some 2
   \<and> map_option bet_status
       (getBet (snd (completeRound (snd (completeRound scenario_violet round_1 2)) round_1 0)) 1)
       = Some Won
   \<and> snd (completeRound (snd (completeRound scenario_violet round_1 2)) round_1 0)
       \<noteq> snd (completeRound scenario_violet round_1 2)"
  unfolding settle_violet_won
  by (simp add: completeRound_def colors_nth multiplierOf_def
      updateGameRound_def getBetsByRound_def settleBet_def getGameRound_def getBet_def
      Let_def round_1_def violet_bet_def)

text \<open>
  C3. The result of round 1 is forced to violet, multiplier 4, while the violet bet is
  pending. \<open>completeRound\<close> with the draw red stores red and multiplier 2 over the forced
  result and settles the violet bet as lost.
\<close>

theorem forced_outcome_overwritten:
  "map_option gr_result (getGameRound scenario_forced_violet 1) = Some ''violet''
   \<and> map_option gr_multiplier (getGameRound scenario_forced_violet 1) = Some 4
   \<and> map_option gr_result
       (getGameRound (snd (completeRound scenario_forced_violet round_1 0)) 1) = Some ''red''
   \<and> map_option gr_multiplier
       (getGameRound (snd (completeRound scenario_forced_violet round_1 0)) 1) = Some 2
   \<and> map_option bet_color (getBet scenario_forced_violet 1) = Some ''violet''
   \<and> map_option bet_status
       (getBet (snd (completeRound scenario_forced_violet round_1 0)) 1) = Some Lost
   \<and> getUserBalance (snd (completeRound scenario_forced_violet round_1 0)) 2 = 950"
  by (simp add: scenario_forced_violet_def scenario_violet_eq force_round_def
      completeRound_def colors_nth multiplierOf_def getUserBalance_def
      updateGameRound_def getBetsByRound_def settleBet_def getGameRound_def getBet_def
      getUser_def updateBet_def Let_def round_1_def violet_bet_def demo_user_def)

section \<open>The scenarios\<close>

lemma wf_scenario_start: "wf_storage scenario_start"
  unfolding scenario_start_def
  by (intro wf_createNewRound wf_createDemoAccounts wf_newMemStorage)

lemma wf_scenario_violet: "wf_storage scenario_violet"
  unfolding scenario_violet_def by (rule wf_post_bets[OF wf_scenario_start])

lemma settle_step_violet:
  "settleBet ''violet'' 1 scenario_violet violet_bet =
      \<lparr> users = [(1, admin_user), (2, demo_user\<lparr> u_balance := 1150 \<rparr>)],
        gameRounds = [(1, round_1)],
        bets = [(1, violet_bet\<lparr> bet_status := Won, bet_profit := Some 150 \<rparr>)],
        transactions = [(1, bet_tx_50), (2, win_tx_200)],
        userId = 3, roundId = 2, betId = 2, transactionId = 3, roundNumber = 2 \<rparr>"
  "settleBet ''green'' 1 scenario_violet violet_bet =
      \<lparr> users = [(1, admin_user), (2, demo_user\<lparr> u_balance := 950 \<rparr>)],
        gameRounds = [(1, round_1)],
        bets = [(1, violet_bet\<lparr> bet_status := Lost, bet_profit := Some 0 \<rparr>)],
        transactions = [(1, bet_tx_50)],
        userId = 3, roundId = 2, betId = 2, transactionId = 2, roundNumber = 2 \<rparr>"
  by (simp_all add: scenario_violet_eq settleBet_def getUser_def updateUser_def
      createTransaction_def updateBet_def Let_def violet_bet_def demo_user_def win_tx_200_def)

theorem settlement_resolves_pending_wager_witness:
  "wf_storage scenario_violet \<and> (1, violet_bet) \<in> set (bets scenario_violet)
   \<and> bet_status violet_bet = Pending
   \<and> getBet (settleBet ''violet'' 1 scenario_violet violet_bet) 1
       = Some (violet_bet\<lparr> bet_status := Won, bet_profit := Some 150 \<rparr>)
   \<and> getUserBalance scenario_violet 2 = 950
   \<and> getUserBalance (settleBet ''violet'' 1 scenario_violet violet_bet) 2 = 1150
   \<and> transactions (settleBet ''violet'' 1 scenario_violet violet_bet)
       = [(1, bet_tx_50), (2, win_tx_200)]
   \<and> getBet (settleBet ''green'' 1 scenario_violet violet_bet) 1
       = Some (violet_bet\<lparr> bet_status := Lost, bet_profit := Some 0 \<rparr>)
   \<and> users (settleBet ''green'' 1 scenario_violet violet_bet) = users scenario_violet
   \<and> transactions (settleBet ''green'' 1 scenario_violet violet_bet) = [(1, bet_tx_50)]
   \<and> getUserBalance (snd (completeRound scenario_violet round_1 2)) 2 = 1150"
proof -
  have h: "(1, violet_bet) \<in> set (bets scenario_violet)" "bet_status violet_bet = Pending"
    by (simp_all add: scenario_violet_eq violet_bet_def)
  have e: "getBet (settleBet ''violet'' 1 scenario_violet violet_bet) 1
       = Some (violet_bet\<lparr> bet_status := Won, bet_profit := Some 150 \<rparr>)"
    "getUserBalance (settleBet ''violet'' 1 scenario_violet violet_bet) 2 = 1150"
    "transactions (settleBet ''violet'' 1 scenario_violet violet_bet)
       = [(1, bet_tx_50), (2, win_tx_200)]"
    "getBet (settleBet ''green'' 1 scenario_violet violet_bet) 1
       = Some (violet_bet\<lparr> bet_status := Lost, bet_profit := Some 0 \<rparr>)"
    "users (settleBet ''green'' 1 scenario_violet violet_bet) = users scenario_violet"
    "transactions (settleBet ''green'' 1 scenario_violet violet_bet) = [(1, bet_tx_50)]"
    unfolding settle_step_violet
    by (simp_all add: getBet_def getUserBalance_def getUser_def scenario_violet_eq)
  have g: "getUserBalance scenario_violet 2 = 950"
    "getUserBalance (snd (completeRound scenario_violet round_1 2)) 2 = 1150"
    unfolding settle_violet_won
    by (simp_all add: getUserBalance_def getUser_def scenario_violet_eq)
  show ?thesis
    using wf_scenario_violet h e g
      settlement_resolves_pending_wager[OF wf_scenario_violet h, of "''violet''" 1 round_1 2 2]
    by blast
qed

theorem completeRound_no_pending_witness:
  "wf_storage scenario_violet
   \<and> map bet_status (getBetsByRound scenario_violet 1) = [Pending]
   \<and> map bet_status (getBetsByRound (snd (completeRound scenario_violet round_1 0)) 1) = [Lost]
   \<and> map bet_status (getBetsByRound (snd (completeRound scenario_violet round_1 2)) 1) = [Won]"
proof -
  have e: "map bet_status (getBetsByRound scenario_violet 1) = [Pending]"
    "map bet_status (getBetsByRound (snd (completeRound scenario_violet round_1 0)) 1) = [Lost]"
    "map bet_status (getBetsByRound (snd (completeRound scenario_violet round_1 2)) 1) = [Won]"
    unfolding settle_violet_won settle_violet_lost
    by (simp_all add: getBetsByRound_def scenario_violet_eq violet_bet_def)
  show ?thesis
    using wf_scenario_violet e completeRound_no_pending[OF wf_scenario_violet, of round_1 0]
    by blast
qed

theorem post_bets_reject_no_change_witness:
  "fst (post_bets scenario_start (Some 2) red_5000_round_7 1000) = Rejected InsufficientBalance
   \<and> snd (post_bets scenario_start (Some 2) red_5000_round_7 1000) = scenario_start
   \<and> getGameRound scenario_start (br_roundId red_5000_round_7) = None"
proof -
  have r: "fst (post_bets scenario_start (Some 2) red_5000_round_7 1000)
             = Rejected InsufficientBalance"
    "getGameRound scenario_start (br_roundId red_5000_round_7) = None"
    by (simp_all add: scenario_start_eq post_bets_def red_5000_round_7_def betSchema_ok_def
        colors_def getUser_def getGameRound_def demo_user_def)
  with post_bets_reject_no_change[of scenario_start "Some 2" red_5000_round_7 1000
      InsufficientBalance]
  show ?thesis by simp
qed

theorem potential_fixed_at_intake_witness:
  "fst (post_bets scenario_start (Some 2) red_100 1000) = Created red_bet
   \<and> br_amount red_100 = 100 \<and> br_color red_100 = ''red'' \<and> bet_potential red_bet = 200
   \<and> fst (post_bets scenario_start (Some 2) violet_50 1000) = Created violet_bet
   \<and> br_amount violet_50 = 50 \<and> br_color violet_50 = ''violet'' \<and> bet_potential violet_bet = 200
   \<and> map_option bet_potential (getBet (snd (completeRound scenario_violet round_1 2)) 1) = Some 200"
proof -
  have c: "fst (post_bets scenario_start (Some 2) red_100 1000) = Created red_bet"
    "fst (post_bets scenario_start (Some 2) violet_50 1000) = Created violet_bet"
    by (simp_all add: post_red post_violet)
  have e: "br_amount red_100 = 100" "br_color red_100 = ''red''" "bet_potential red_bet = 200"
    "br_amount violet_50 = 50" "br_color violet_50 = ''violet''" "bet_potential violet_bet = 200"
    by (simp_all add: red_100_def violet_50_def violet_bet_def red_bet_def)
  have g: "map_option bet_potential (getBet (snd (completeRound scenario_violet round_1 2)) 1)
             = Some 200"
    unfolding settle_violet_won by (simp add: getBet_def violet_bet_def)
  show ?thesis
    using c e g
      potential_fixed_at_intake[where s = scenario_start and session = "Some 2"
        and body = red_100 and now = 1000 and b = red_bet]
    by blast
qed

theorem transaction_snapshots_witness:
  "wf_storage scenario_start
   \<and> fst (post_bets scenario_start (Some 2) violet_50 1000) = Created violet_bet
   \<and> transactions (snd (post_bets scenario_start (Some 2) violet_50 1000)) = [(1, bet_tx_50)]
   \<and> tx_balanceBefore bet_tx_50 = getUserBalance scenario_start 2
   \<and> tx_balanceAfter bet_tx_50 = tx_balanceBefore bet_tx_50 + tx_amount bet_tx_50
   \<and> tx_balanceAfter bet_tx_50 = getUserBalance scenario_violet 2
   \<and> transactions (settleBet ''violet'' 1 scenario_violet violet_bet)
       = transactions scenario_violet @ [(2, win_tx_200)]
   \<and> tx_balanceBefore win_tx_200 = getUserBalance scenario_violet 2
   \<and> tx_balanceAfter win_tx_200 = tx_balanceBefore win_tx_200 + tx_amount win_tx_200
   \<and> tx_balanceAfter win_tx_200
       = getUserBalance (settleBet ''violet'' 1 scenario_violet violet_bet) 2"
proof -
  have a: "fst (post_bets scenario_start (Some 2) violet_50 1000) = Created violet_bet"
    "transactions (snd (post_bets scenario_start (Some 2) violet_50 1000)) = [(1, bet_tx_50)]"
    by (simp_all add: post_violet bet_tx_50_def)
  have b: "tx_balanceBefore bet_tx_50 = getUserBalance scenario_start 2"
    "tx_balanceAfter bet_tx_50 = tx_balanceBefore bet_tx_50 + tx_amount bet_tx_50"
    "tx_balanceAfter bet_tx_50 = getUserBalance scenario_violet 2"
    "tx_balanceBefore win_tx_200 = getUserBalance scenario_violet 2"
    "tx_balanceAfter win_tx_200 = tx_balanceBefore win_tx_200 + tx_amount win_tx_200"
    by (simp_all add: bet_tx_50_def win_tx_200_def getUserBalance_def getUser_def
        scenario_start_eq scenario_violet_eq demo_user_def)
  have c: "transactions (settleBet ''violet'' 1 scenario_violet violet_bet)
       = transactions scenario_violet @ [(2, win_tx_200)]"
    "tx_balanceAfter win_tx_200
       = getUserBalance (settleBet ''violet'' 1 scenario_violet violet_bet) 2"
    unfolding settle_step_violet
    by (simp_all add: scenario_violet_eq win_tx_200_def getUserBalance_def getUser_def)
  show ?thesis
    using wf_scenario_start a b c
      transaction_snapshots[OF wf_scenario_start, of "Some 2" violet_50 1000 violet_bet]
    by blast
qed

lemma reachable_engine_started: "reachable engine_started"
  unfolding engine_started_def scenario_start_def by (rule reachable.start) simp_all

lemma reachable_engine_ticked: "reachable engine_ticked"
  unfolding engine_ticked_def
  by (rule reachable.tick[OF reachable_engine_started])
     (simp_all add: engine_started_def ROUND_DURATION_MS_def colors_def)

lemma reachable_engine_ticked_twice: "reachable engine_ticked_twice"
  unfolding engine_ticked_twice_def
  by (rule reachable.tick[OF reachable_engine_ticked])
     (simp_all add: engine_ticked_def ROUND_DURATION_MS_def colors_def)

lemma engine_ticked_rounds:
  "gameRounds (store engine_ticked) =
     [(1, round_1\<lparr> gr_result := ''red'', gr_multiplier := 2 \<rparr>),
      (2, \<lparr> gr_id = 2, gr_roundNumber = 2, gr_startTime = 60010, gr_endTime = 120010,
            gr_result = [], gr_multiplier = 0 \<rparr>)]"
  "bets (store engine_ticked) = []" "roundId (store engine_ticked) = 3"
  "roundNumber (store engine_ticked) = 3"
  by (simp_all add: engine_ticked_def engine_started_def
      scenario_start_eq createNewRound_def getActiveGameRound_def round_1_def
      completeRound_def colors_nth multiplierOf_def updateGameRound_def getBetsByRound_def
      createGameRound_def ROUND_DURATION_MS_def Let_def)

text \<open>
  At 120000 round 2 has ten milliseconds left; the interval callback finds it active and
  decides it before round 3 is created, so round 3 is the only open round.
\<close>

theorem at_most_one_open_round_witness:
  "reachable engine_ticked_twice
   \<and> map gr_id (open_rounds engine_ticked_twice) = [3]
   \<and> map gr_result (map snd (gameRounds (store engine_ticked_twice))) = [''red'', ''green'', []]
   \<and> map gr_endTime (map snd (gameRounds (store engine_ticked_twice))) = [60000, 120010, 180000]
   \<and> clock engine_ticked_twice = 120000
   \<and> length (open_rounds engine_ticked_twice) \<le> 1"
proof -
  have e: "map gr_id (open_rounds engine_ticked_twice) = [3]"
    "map gr_result (map snd (gameRounds (store engine_ticked_twice))) = [''red'', ''green'', []]"
    "map gr_endTime (map snd (gameRounds (store engine_ticked_twice))) = [60000, 120010, 180000]"
    "clock engine_ticked_twice = 120000"
    by (simp_all add: open_rounds_def round_open_def engine_ticked_twice_def
      engine_ticked_rounds createNewRound_def getActiveGameRound_def round_1_def
      completeRound_def colors_def multiplierOf_def updateGameRound_def getBetsByRound_def
      createGameRound_def ROUND_DURATION_MS_def Let_def)
  show ?thesis
    using reachable_engine_ticked_twice e
      at_most_one_open_round[OF reachable_engine_ticked_twice]
    by blast
qed

end
